theory Spec2Isabelle
  imports Complex_Main
begin

section \<open>JavaScript strings\<close>

text \<open>
  Text is a list of 8-bit characters standing for the code points U+0000 to U+00FF.
  \<open>is_ws\<close> is the white space that \<^verbatim>\<open>String.prototype.trim\<close> strips in that
  range: tab, line feed, vertical tab, form feed, carriage return, space and
  no-break space.
\<close>

definition nl :: char where
  "nl = CHR 0x0A"

definition is_ws :: "char \<Rightarrow> bool" where
  "is_ws c = (c \<in> {CHR 0x09, CHR 0x0A, CHR 0x0B, CHR 0x0C, CHR 0x0D, CHR 0x20, CHR 0xA0})"

definition trim :: "string \<Rightarrow> string" where
  "trim s = rev (dropWhile is_ws (rev (dropWhile is_ws s)))"

text \<open>\<^verbatim>\<open>s.startsWith(p)\<close>, \<^verbatim>\<open>s.slice(n)\<close> and \<^verbatim>\<open>s.slice(0, n)\<close> for \<open>0 \<le> n\<close>.\<close>

definition startsWith :: "string \<Rightarrow> string \<Rightarrow> bool" where
  "startsWith s p = (take (length p) s = p)"

definition slice_from :: "nat \<Rightarrow> string \<Rightarrow> string" where
  "slice_from n s = drop n s"

definition slice_to :: "nat \<Rightarrow> string \<Rightarrow> string" where
  "slice_to n s = take n s"

text \<open>
  \<^verbatim>\<open>s.split('\n')\<close>: the segments between line feeds; the result is never empty
  (the empty text splits into one empty segment).
\<close>

fun split_nl :: "string \<Rightarrow> string list" where
  "split_nl [] = [[]]"
| "split_nl (c # cs) =
     (if c = nl then [] # split_nl cs
      else (case split_nl cs of [] \<Rightarrow> [[c]] | l # ls \<Rightarrow> (c # l) # ls))"

text \<open>
  A value of declared type \<^verbatim>\<open>string\<close> that may be \<^verbatim>\<open>undefined\<close> at run time
  (a missing property of a parsed payload) is a \<open>string option\<close>.
  \<open>concat_arg\<close> is what \<^verbatim>\<open>acc += x\<close> appends; \<open>error_message_of\<close> is the
  \<^verbatim>\<open>message\<close> of \<^verbatim>\<open>new Error(x)\<close>.
\<close>

definition concat_arg :: "string option \<Rightarrow> string" where
  "concat_arg x = (case x of None \<Rightarrow> ''undefined'' | Some s \<Rightarrow> s)"

definition error_message_of :: "string option \<Rightarrow> string" where
  "error_message_of x = (case x of None \<Rightarrow> [] | Some s \<Rightarrow> s)"

section \<open>Data model (src/types/chat.ts)\<close>

datatype role = User | Assistant

record citation =
  citation_id :: string
  fileName :: string
  pageNumber :: real
  excerpt :: string

record chartDataPoint =
  point_name :: string
  point_value :: real

text \<open>A \<^verbatim>\<open>Date\<close> is its time value.\<close>

type_synonym date = int

record message =
  msg_id :: string
  msg_role :: role
  content :: string
  timestamp :: date
  citations :: "citation list option"
  hasChart :: "bool option"
  chartData :: "chartDataPoint list option"
  isStreaming :: "bool option"

record chat =
  chat_id :: string
  title :: string
  messages :: "message list"
  datasetId :: "string option"
  createdAt :: date
  updatedAt :: date

text \<open>\<^verbatim>\<open>Partial<Message>\<close>: each field is present or absent.\<close>

record message_updates =
  upd_id :: "string option"
  upd_role :: "role option"
  upd_content :: "string option"
  upd_timestamp :: "date option"
  upd_citations :: "citation list option option"
  upd_hasChart :: "bool option option"
  upd_chartData :: "chartDataPoint list option option"
  upd_isStreaming :: "bool option option"

definition no_updates :: message_updates where
  "no_updates = \<lparr> upd_id = None, upd_role = None, upd_content = None, upd_timestamp = None,
     upd_citations = None, upd_hasChart = None, upd_chartData = None, upd_isStreaming = None \<rparr>"

text \<open>The object spread \<^verbatim>\<open>{ ...msg, ...updates }\<close>.\<close>

definition apply_updates :: "message \<Rightarrow> message_updates \<Rightarrow> message" where
  "apply_updates msg u =
     \<lparr> msg_id = (case upd_id u of None \<Rightarrow> msg_id msg | Some v \<Rightarrow> v),
       msg_role = (case upd_role u of None \<Rightarrow> msg_role msg | Some v \<Rightarrow> v),
       content = (case upd_content u of None \<Rightarrow> content msg | Some v \<Rightarrow> v),
       timestamp = (case upd_timestamp u of None \<Rightarrow> timestamp msg | Some v \<Rightarrow> v),
       citations = (case upd_citations u of None \<Rightarrow> citations msg | Some v \<Rightarrow> v),
       hasChart = (case upd_hasChart u of None \<Rightarrow> hasChart msg | Some v \<Rightarrow> v),
       chartData = (case upd_chartData u of None \<Rightarrow> chartData msg | Some v \<Rightarrow> v),
       isStreaming = (case upd_isStreaming u of None \<Rightarrow> isStreaming msg | Some v \<Rightarrow> v) \<rparr>"

section \<open>Conversation store (src/stores/chatStore.ts)\<close>

text \<open>
  The part of the store the chat session reads and writes: the conversations, the
  active conversation and the active dataset. Identifiers drawn from
  \<^verbatim>\<open>crypto.randomUUID()\<close> and readings of \<^verbatim>\<open>new Date()\<close> are arguments.
\<close>

record store =
  chats :: "chat list"
  activeChat :: "string option"
  activeDataset :: "string option"

definition initial_store :: store where
  "initial_store = \<lparr> chats = [], activeChat = None, activeDataset = None \<rparr>"

definition createChat :: "string \<Rightarrow> date \<Rightarrow> store \<Rightarrow> string \<times> store" where
  "createChat new_id now st =
     (let newChat = \<lparr> chat_id = new_id, title = ''New Conversation'', messages = [],
                       datasetId = activeDataset st, createdAt = now, updatedAt = now \<rparr>
      in (new_id, st\<lparr> chats := newChat # chats st, activeChat := Some new_id \<rparr>))"

definition deleteChat :: "string \<Rightarrow> store \<Rightarrow> store" where
  "deleteChat cid st =
     st\<lparr> chats := filter (\<lambda>c. chat_id c \<noteq> cid) (chats st),
         activeChat := (if activeChat st = Some cid then None else activeChat st) \<rparr>"

definition setActiveChat :: "string \<Rightarrow> store \<Rightarrow> store" where
  "setActiveChat cid st = st\<lparr> activeChat := Some cid \<rparr>"

definition addMessage :: "string \<Rightarrow> message \<Rightarrow> date \<Rightarrow> store \<Rightarrow> store" where
  "addMessage chatId m now st =
     st\<lparr> chats := map (\<lambda>c.
            if chat_id c = chatId
            then c\<lparr> messages := messages c @ [m],
                    updatedAt := now,
                    title := (if length (messages c) = 0
                              then slice_to 40 (content m) @ ''...''
                              else title c) \<rparr>
            else c) (chats st) \<rparr>"

definition updateMessage :: "string \<Rightarrow> string \<Rightarrow> message_updates \<Rightarrow> store \<Rightarrow> store" where
  "updateMessage chatId messageId u st =
     st\<lparr> chats := map (\<lambda>c.
            if chat_id c = chatId
            then c\<lparr> messages := map (\<lambda>m. if msg_id m = messageId then apply_updates m u else m)
                                    (messages c) \<rparr>
            else c) (chats st) \<rparr>"

text \<open>\<^verbatim>\<open>chats.find((c) => c.id === id)\<close>.\<close>

definition find_chat :: "string \<Rightarrow> store \<Rightarrow> chat option" where
  "find_chat cid st = find (\<lambda>c. chat_id c = cid) (chats st)"

section \<open>Streaming client (src/lib/api.ts)\<close>

text \<open>
  A thrown value is an \<^verbatim>\<open>Error\<close> object with its message, or some other value.
\<close>

datatype js_exn = JsError string | JsThrown

text \<open>\<^verbatim>\<open>error instanceof Error ? error.message : fallback\<close>.\<close>

definition message_or :: "string \<Rightarrow> js_exn \<Rightarrow> string" where
  "message_or fallback e = (case e of JsError m \<Rightarrow> m | JsThrown \<Rightarrow> fallback)"

text \<open>
  \<^verbatim>\<open>JSON.parse\<close> belongs to the language, not to the repository: it is the
  parameter \<open>parse\<close> of the client. \<open>parse d = None\<close> stands for the cases in which
  \<^verbatim>\<open>JSON.parse(d)\<close> or the following read of \<^verbatim>\<open>parsed.type\<close> raises (a syntax
  error, a parsed \<^verbatim>\<open>null\<close>). Otherwise the parsed value is seen through the two
  properties the client reads: \<open>ptype\<close> is \<open>Some t\<close> when \<^verbatim>\<open>parsed.type\<close> is the
  string \<open>t\<close> (and \<open>None\<close> when no comparison with a string can succeed), \<open>pdata\<close>
  is \<^verbatim>\<open>parsed.data\<close> at the type the callbacks declare for it.
\<close>

record payload =
  ptype :: "string option"
  pdata :: "string option"

type_synonym json_parse = "string \<Rightarrow> payload option"

text \<open>
  A callback runs on the caller's state \<open>'s\<close>; it returns the state it leaves and the
  exception it raised, if any. Each of the three callbacks is optional.
\<close>

record 's callbacks =
  onChunk :: "(string option \<Rightarrow> 's \<Rightarrow> 's \<times> js_exn option) option"
  onDone :: "('s \<Rightarrow> 's \<times> js_exn option) option"
  onError :: "(string option \<Rightarrow> 's \<Rightarrow> 's \<times> js_exn option) option"

text \<open>
  The body of the \<^verbatim>\<open>for (const line of lines)\<close> loop. The inner \<^verbatim>\<open>try\<close> encloses
  both \<^verbatim>\<open>JSON.parse\<close> and the callback calls, and its \<^verbatim>\<open>catch\<close> only logs: an
  exception of a callback ends the call and is dropped, the state the callback left
  stays.
\<close>

definition process_line :: "json_parse \<Rightarrow> 's callbacks \<Rightarrow> string \<Rightarrow> 's \<Rightarrow> 's" where
  "process_line parse cbs line s =
     (if trim line = [] then s
      else if startsWith line ''data: '' then
        (case parse (slice_from 6 line) of
           None \<Rightarrow> s
         | Some parsed \<Rightarrow>
             (if ptype parsed = Some ''content'' \<and> onChunk cbs \<noteq> None then
                (case onChunk cbs of Some f \<Rightarrow> fst (f (pdata parsed) s) | None \<Rightarrow> s)
              else if ptype parsed = Some ''done'' \<and> onDone cbs \<noteq> None then
                (case onDone cbs of Some f \<Rightarrow> fst (f s) | None \<Rightarrow> s)
              else if ptype parsed = Some ''error'' \<and> onError cbs \<noteq> None then
                (case onError cbs of Some f \<Rightarrow> fst (f (pdata parsed) s) | None \<Rightarrow> s)
              else s))
      else s)"

text \<open>
  One turn of the \<^verbatim>\<open>while (true)\<close> loop after a successful read: the fragment is
  appended to the buffer, the buffer is split at line feeds, the last segment becomes
  the new buffer (\<^verbatim>\<open>lines.pop() || ''\<close>) and the other segments are processed in
  order.
\<close>

definition read_step :: "json_parse \<Rightarrow> 's callbacks \<Rightarrow> string \<times> 's \<Rightarrow> string \<Rightarrow> string \<times> 's" where
  "read_step parse cbs bs chunk =
     (let lines = split_nl (fst bs @ chunk)
      in (last lines, foldl (\<lambda>s line. process_line parse cbs line s) (snd bs) (butlast lines)))"

text \<open>
  The response body is a finite sequence of decoded text fragments, closed by the end
  of the stream or by a failing read. The loop over the successful reads:
\<close>

definition read_loop :: "json_parse \<Rightarrow> 's callbacks \<Rightarrow> string list \<Rightarrow> string \<times> 's \<Rightarrow> string \<times> 's" where
  "read_loop parse cbs frs bs = foldl (read_step parse cbs) bs frs"

datatype stream_end = EndOfStream | ReadFails js_exn

record response_body =
  fragments :: "string list"
  ending :: stream_end

text \<open>
  A response: \<open>ok\<close>; the outcome of \<^verbatim>\<open>response.json()\<close> on an error response
  (\<open>None\<close>: it rejects; \<open>Some d\<close>: the \<^verbatim>\<open>detail\<close> property of the parsed object,
  \<open>None\<close> when missing); the body, \<open>None\<close> when \<^verbatim>\<open>response.body\<close> is null.
\<close>

record response =
  ok :: bool
  error_detail :: "string option option"
  body :: "response_body option"

datatype fetch_result = FetchRejects js_exn | FetchResolves response

record chat_request =
  req_message :: string
  req_history :: "(role \<times> string) list"
  req_datasetId :: "string option"

text \<open>
  The \<^verbatim>\<open>try\<close> block of \<open>sendChatMessage\<close> after the request is issued: the state
  it leaves and the exception that reaches the outer \<^verbatim>\<open>catch\<close>, if any.
\<close>

definition chat_stream :: "json_parse \<Rightarrow> fetch_result \<Rightarrow> 's callbacks \<Rightarrow> 's \<Rightarrow> 's \<times> js_exn option" where
  "chat_stream parse res cbs s =
     (case res of
        FetchRejects e \<Rightarrow> (s, Some e)
      | FetchResolves r \<Rightarrow>
          if \<not> ok r then
            (s, Some (JsError
               (case error_detail r of
                  None \<Rightarrow> ''Chat request failed''
                | Some None \<Rightarrow> ''Failed to send message''
                | Some (Some d) \<Rightarrow> if d = [] then ''Failed to send message'' else d)))
          else
            (case body r of
               None \<Rightarrow> (s, Some (JsError ''Response body is not readable''))
             | Some b \<Rightarrow>
                 (let s' = snd (read_loop parse cbs (fragments b) ([], s))
                  in case ending b of
                       EndOfStream \<Rightarrow> (s', None)
                     | ReadFails e \<Rightarrow> (s', Some e))))"

text \<open>
  \<open>sendChatMessage\<close> returns the request it issued, the caller's state, and the
  exception that leaves it, if any (the promise rejects).
\<close>

definition sendChatMessage ::
  "json_parse \<Rightarrow> (chat_request \<Rightarrow> fetch_result) \<Rightarrow> string \<Rightarrow> (role \<times> string) list \<Rightarrow> string option
     \<Rightarrow> 's callbacks \<Rightarrow> 's \<Rightarrow> chat_request \<times> 's \<times> js_exn option" where
  "sendChatMessage parse fetch message history dsId cbs s =
     (let req = \<lparr> req_message = message, req_history = history, req_datasetId = dsId \<rparr>
      in case chat_stream parse (fetch req) cbs s of
           (s', None) \<Rightarrow> (req, s', None)
         | (s', Some e) \<Rightarrow>
             (case onError cbs of
                Some f \<Rightarrow> (req, f (Some (message_or ''Unknown error occurred'' e)) s')
              | None \<Rightarrow> (req, s', Some e)))"

subsection \<open>Observing the callbacks\<close>

text \<open>
  The calls the client makes, as values. \<open>recorder\<close> supplies all three callbacks
  and only notes each call; \<open>decoded_calls\<close> is what the read loop delivers to it.
  \<open>logged\<close> wraps given callbacks so that each call is noted before its effect and
  its exception are passed on.
\<close>

datatype call = ChunkCall "string option" | DoneCall | ErrorCall "string option"

definition recorder :: "call list callbacks" where
  "recorder =
     \<lparr> onChunk = Some (\<lambda>d log. (log @ [ChunkCall d], None)),
       onDone = Some (\<lambda>log. (log @ [DoneCall], None)),
       onError = Some (\<lambda>d log. (log @ [ErrorCall d], None)) \<rparr>"

definition decoded_calls :: "json_parse \<Rightarrow> string list \<Rightarrow> call list" where
  "decoded_calls parse frs = snd (read_loop parse recorder frs ([], []))"

text \<open>The calls one line gives rise to.\<close>

definition line_calls :: "json_parse \<Rightarrow> string \<Rightarrow> call list" where
  "line_calls parse line = process_line parse recorder line []"

definition logged :: "'s callbacks \<Rightarrow> ('s \<times> call list) callbacks" where
  "logged cbs =
     \<lparr> onChunk = map_option (\<lambda>f d sl. (case f d (fst sl) of (s', e) \<Rightarrow> ((s', snd sl @ [ChunkCall d]), e)))
                   (onChunk cbs),
       onDone = map_option (\<lambda>f sl. (case f (fst sl) of (s', e) \<Rightarrow> ((s', snd sl @ [DoneCall]), e)))
                   (onDone cbs),
       onError = map_option (\<lambda>f d sl. (case f d (fst sl) of (s', e) \<Rightarrow> ((s', snd sl @ [ErrorCall d]), e)))
                   (onError cbs) \<rparr>"

text \<open>Replaying one noted call on given callbacks, as the inner \<^verbatim>\<open>try\<close> runs it.\<close>

definition replay :: "'s callbacks \<Rightarrow> 's \<Rightarrow> call \<Rightarrow> 's" where
  "replay cbs s c =
     (case c of
        ChunkCall d \<Rightarrow> (case onChunk cbs of Some f \<Rightarrow> fst (f d s) | None \<Rightarrow> s)
      | DoneCall \<Rightarrow> (case onDone cbs of Some f \<Rightarrow> fst (f s) | None \<Rightarrow> s)
      | ErrorCall d \<Rightarrow> (case onError cbs of Some f \<Rightarrow> fst (f d s) | None \<Rightarrow> s))"

text \<open>The wire frame of a payload text: the field prefix, the payload, a line feed.\<close>

definition sse_frame :: "string \<Rightarrow> string" where
  "sse_frame d = ''data: '' @ d @ [nl]"

section \<open>Chat input and session orchestration (ChatInput, ChatInterface)\<close>

text \<open>
  The component state next to the store is the flag \<open>isThinking\<close>. The values the
  component reads from the store (\<^verbatim>\<open>activeChat\<close>, \<^verbatim>\<open>messages\<close>,
  \<^verbatim>\<open>activeDataset\<close>) are those of its last render, taken here to be the store at the
  moment the handler starts. Toast notifications and scrolling are left out.
\<close>

record chat_ui =
  ui_store :: store
  isThinking :: bool

record turn_ids =
  new_chat_id :: string
  user_msg_id :: string
  ai_msg_id :: string

definition fallback_notice :: string where
  "fallback_notice = ''(No response from AI. Please try again or check your connection.)''"

text \<open>\<^verbatim>\<open>currentChat?.messages || []\<close> of the render.\<close>

definition current_messages :: "store \<Rightarrow> message list" where
  "current_messages st =
     (case activeChat st of
        None \<Rightarrow> []
      | Some a \<Rightarrow> (case find_chat a st of None \<Rightarrow> [] | Some c \<Rightarrow> messages c))"

text \<open>The history filter and projection of \<open>handleSend\<close>.\<close>

definition build_history :: "message list \<Rightarrow> (role \<times> string) list" where
  "build_history ms =
     map (\<lambda>m. (msg_role m, content m))
         (filter (\<lambda>m. content m \<noteq> [] \<and> trim (content m) \<noteq> []) ms)"

text \<open>
  \<open>handleSend\<close> up to the call of the client: the conversation is chosen or created,
  the user message and the assistant placeholder are appended, the flag is raised and
  the history is built from the rendered messages. Returns the conversation id, the
  placeholder's id, the history and the new state.
\<close>

definition handleSend_begin ::
  "turn_ids \<Rightarrow> date \<Rightarrow> string \<Rightarrow> chat_ui \<Rightarrow> (string \<times> string \<times> (role \<times> string) list) \<times> chat_ui" where
  "handleSend_begin ids now text ui =
     (let st = ui_store ui;
          rendered = current_messages st;
          (chatId, st1) =
            (case activeChat st of
               None \<Rightarrow> createChat (new_chat_id ids) now st
             | Some a \<Rightarrow> if a = [] then createChat (new_chat_id ids) now st else (a, st));
          userMessage = \<lparr> msg_id = user_msg_id ids, msg_role = User, content = text,
                          timestamp = now, citations = None, hasChart = None,
                          chartData = None, isStreaming = None \<rparr>;
          st2 = addMessage chatId userMessage now st1;
          aiMessage = \<lparr> msg_id = ai_msg_id ids, msg_role = Assistant, content = [],
                        timestamp = now, citations = None, hasChart = None,
                        chartData = None, isStreaming = Some True \<rparr>;
          st3 = addMessage chatId aiMessage now st2;
          history = build_history rendered
      in ((chatId, ai_msg_id ids, history), \<lparr> ui_store = st3, isThinking = True \<rparr>))"

text \<open>
  The three closures handed to the client. Their state is the store together with
  the local accumulator \<^verbatim>\<open>fullContent\<close>.
\<close>

definition handleSend_callbacks :: "string \<Rightarrow> string \<Rightarrow> (store \<times> string) callbacks" where
  "handleSend_callbacks chatId aiId =
     \<lparr> onChunk = Some (\<lambda>chunk sf.
         (let fullContent = snd sf @ concat_arg chunk
          in ((updateMessage chatId aiId (no_updates\<lparr> upd_content := Some fullContent \<rparr>) (fst sf),
               fullContent), None))),
       onDone = Some (\<lambda>sf. (sf, None)),
       onError = Some (\<lambda>err sf. (sf, Some (JsError (error_message_of err)))) \<rparr>"

text \<open>The statements after the \<^verbatim>\<open>await\<close>, and the \<^verbatim>\<open>catch\<close> block.\<close>

definition handleSend_settle :: "string \<Rightarrow> string \<Rightarrow> string \<Rightarrow> store \<Rightarrow> chat_ui" where
  "handleSend_settle chatId aiId fullContent st =
     \<lparr> ui_store =
         (if fullContent = [] \<or> trim fullContent = []
          then updateMessage chatId aiId
                 (no_updates\<lparr> upd_content := Some fallback_notice,
                              upd_isStreaming := Some (Some False) \<rparr>) st
          else updateMessage chatId aiId (no_updates\<lparr> upd_isStreaming := Some (Some False) \<rparr>) st),
       isThinking = False \<rparr>"

definition handleSend_catch :: "string \<Rightarrow> string \<Rightarrow> js_exn \<Rightarrow> store \<Rightarrow> chat_ui" where
  "handleSend_catch chatId aiId e st =
     \<lparr> ui_store =
         updateMessage chatId aiId
           (no_updates\<lparr> upd_content := Some (''Error: '' @ message_or ''Unknown error'' e),
                        upd_isStreaming := Some (Some False) \<rparr>) st,
       isThinking = False \<rparr>"

text \<open>
  One whole turn with nothing interleaved: the request that was sent and the state
  when \<open>handleSend\<close> has finished.
\<close>

definition handleSend ::
  "json_parse \<Rightarrow> (chat_request \<Rightarrow> fetch_result) \<Rightarrow> turn_ids \<Rightarrow> date \<Rightarrow> string \<Rightarrow> chat_ui
     \<Rightarrow> chat_request \<times> chat_ui" where
  "handleSend parse fetch ids now text ui =
     (case handleSend_begin ids now text ui of
        ((chatId, aiId, history), ui1) \<Rightarrow>
          (case sendChatMessage parse fetch text history
                  (case activeDataset (ui_store ui) of None \<Rightarrow> None
                   | Some d \<Rightarrow> if d = [] then None else Some d)
                  (handleSend_callbacks chatId aiId) (ui_store ui1, []) of
             (req, (st', fullContent), None) \<Rightarrow> (req, handleSend_settle chatId aiId fullContent st')
           | (req, (st', fullContent), Some e) \<Rightarrow> (req, handleSend_catch chatId aiId e st')))"

text \<open>The request that \<open>handleSend\<close> hands to the client.\<close>

definition turn_request :: "string \<Rightarrow> chat_ui \<Rightarrow> chat_request" where
  "turn_request text ui =
     \<lparr> req_message = text,
       req_history = build_history (current_messages (ui_store ui)),
       req_datasetId = (case activeDataset (ui_store ui) of None \<Rightarrow> None
                        | Some d \<Rightarrow> if d = [] then None else Some d) \<rparr>"

subsection \<open>Notions for the statements\<close>

text \<open>
  The messages of the first conversation with the given id that carry the given
  message id.
\<close>

definition messages_with :: "string \<Rightarrow> string \<Rightarrow> store \<Rightarrow> message list" where
  "messages_with chatId mid st =
     (case find_chat chatId st of
        None \<Rightarrow> []
      | Some c \<Rightarrow> filter (\<lambda>m. msg_id m = mid) (messages c))"

text \<open>The placeholder that \<open>handleSend_begin\<close> appends.\<close>

definition placeholder :: "turn_ids \<Rightarrow> date \<Rightarrow> message" where
  "placeholder ids now =
     \<lparr> msg_id = ai_msg_id ids, msg_role = Assistant, content = [], timestamp = now,
       citations = None, hasChart = None, chartData = None, isStreaming = Some True \<rparr>"

text \<open>
  The standing assumptions on a turn: the two message identifiers drawn for it differ,
  the placeholder's identifier is not carried by a rendered message, and the active
  conversation, when one is named, is in the store.
\<close>

definition turn_ready :: "turn_ids \<Rightarrow> store \<Rightarrow> bool" where
  "turn_ready ids st =
     (user_msg_id ids \<noteq> ai_msg_id ids
      \<and> list_all (\<lambda>m. msg_id m \<noteq> ai_msg_id ids) (current_messages st)
      \<and> (case activeChat st of
           None \<Rightarrow> True
         | Some a \<Rightarrow> a = [] \<or> find_chat a st \<noteq> None))"

text \<open>
  What a response holds for the \<^verbatim>\<open>try\<close> block, read off its throw sites: the
  exception raised while the stream is set up or read, and the fragments read before.
\<close>

definition stream_failure :: "fetch_result \<Rightarrow> js_exn option" where
  "stream_failure res =
     (case res of
        FetchRejects e \<Rightarrow> Some e
      | FetchResolves r \<Rightarrow>
          if \<not> ok r then
            Some (JsError
               (case error_detail r of
                  None \<Rightarrow> ''Chat request failed''
                | Some None \<Rightarrow> ''Failed to send message''
                | Some (Some d) \<Rightarrow> if d = [] then ''Failed to send message'' else d))
          else
            (case body r of
               None \<Rightarrow> Some (JsError ''Response body is not readable'')
             | Some b \<Rightarrow> (case ending b of EndOfStream \<Rightarrow> None | ReadFails e \<Rightarrow> Some e)))"

definition fragments_read :: "fetch_result \<Rightarrow> string list" where
  "fragments_read res =
     (case res of
        FetchRejects e \<Rightarrow> []
      | FetchResolves r \<Rightarrow>
          if \<not> ok r then []
          else (case body r of None \<Rightarrow> [] | Some b \<Rightarrow> fragments b))"

text \<open>The text that the chunk calls among the given calls add to the accumulator.\<close>

definition accumulated :: "call list \<Rightarrow> string" where
  "accumulated calls =
     concat (map (\<lambda>c. case c of ChunkCall d \<Rightarrow> concat_arg d | DoneCall \<Rightarrow> [] | ErrorCall d \<Rightarrow> []) calls)"

definition is_chunk_call :: "call \<Rightarrow> bool" where
  "is_chunk_call c = (case c of ChunkCall d \<Rightarrow> True | DoneCall \<Rightarrow> False | ErrorCall d \<Rightarrow> False)"

text \<open>The calls that reach a callback that was supplied.\<close>

definition supplied :: "'s callbacks \<Rightarrow> call \<Rightarrow> bool" where
  "supplied cbs c =
     (case c of
        ChunkCall d \<Rightarrow> onChunk cbs \<noteq> None
      | DoneCall \<Rightarrow> onDone cbs \<noteq> None
      | ErrorCall d \<Rightarrow> onError cbs \<noteq> None)"

subsection \<open>A fragment of JSON.parse for concrete runs\<close>

text \<open>
  \<open>wire_parse\<close> accepts the compact serialisations of the three protocol records
  whose \<open>data\<close> string has no quote, no backslash and no control character, so that
  the string literal denotes its own text. On these texts it returns what
  \<^verbatim>\<open>JSON.parse\<close> returns; it rejects every other text. It instantiates the parameter
  \<open>parse\<close> at concrete inputs only; the general statements hold for every \<open>parse\<close>.
\<close>

definition plain_char :: "char \<Rightarrow> bool" where
  "plain_char c = (c \<noteq> CHR 0x22 \<and> c \<noteq> CHR 0x5C \<and> (32::nat) \<le> of_char c)"

definition unwrap :: "string \<Rightarrow> string \<Rightarrow> string \<Rightarrow> string option" where
  "unwrap pre post d =
     (let mid = take (length d - length pre - length post) (drop (length pre) d)
      in if length pre + length post \<le> length d \<and> take (length pre) d = pre
            \<and> drop (length d - length post) d = post \<and> list_all plain_char mid
         then Some mid else None)"

definition wire_parse :: json_parse where
  \<open>wire_parse d =
     (if d = ''{"type":"done"}'' then Some \<lparr> ptype = Some ''done'', pdata = None \<rparr>
      else case unwrap ''{"type":"content","data":"'' ''"}'' d of
             Some t \<Rightarrow> Some \<lparr> ptype = Some ''content'', pdata = Some t \<rparr>
           | None \<Rightarrow>
               (case unwrap ''{"type":"error","data":"'' ''"}'' d of
                  Some t \<Rightarrow> Some \<lparr> ptype = Some ''error'', pdata = Some t \<rparr>
                | None \<Rightarrow> None))\<close>

subsection \<open>Concrete turns\<close>

text \<open>
  A fresh application, the identifiers of a first turn, a server that answers with a
  given stream, a request that is rejected, a conversation with blank entries, and
  some response streams.
\<close>

definition demo_ui :: chat_ui where
  "demo_ui = \<lparr> ui_store = initial_store, isThinking = False \<rparr>"

definition demo_ids :: turn_ids where
  "demo_ids = \<lparr> new_chat_id = ''c1'', user_msg_id = ''u1'', ai_msg_id = ''a1'' \<rparr>"

definition demo_fetch :: "string list \<Rightarrow> stream_end \<Rightarrow> chat_request \<Rightarrow> fetch_result" where
  "demo_fetch frs en req =
     FetchResolves \<lparr> ok = True, error_detail = None, body = Some \<lparr> fragments = frs, ending = en \<rparr> \<rparr>"

definition rejecting_fetch :: "chat_request \<Rightarrow> fetch_result" where
  "rejecting_fetch req = FetchRejects (JsError ''Failed to fetch'')"

definition demo_history_ui :: chat_ui where
  "demo_history_ui =
     \<lparr> ui_store =
         \<lparr> chats =
             [\<lparr> chat_id = ''c1'', title = ''hello...'',
                 messages =
                   [\<lparr> msg_id = ''m1'', msg_role = User, content = ''hello'', timestamp = 1,
                       citations = None, hasChart = None, chartData = None, isStreaming = None \<rparr>,
                    \<lparr> msg_id = ''m2'', msg_role = Assistant, content = [], timestamp = 2,
                       citations = None, hasChart = None, chartData = None,
                       isStreaming = Some False \<rparr>,
                    \<lparr> msg_id = ''m3'', msg_role = User, content = '' '', timestamp = 3,
                       citations = None, hasChart = None, chartData = None, isStreaming = None \<rparr>,
                    \<lparr> msg_id = ''m4'', msg_role = Assistant, content = ''ok'', timestamp = 4,
                       citations = None, hasChart = None, chartData = None,
                       isStreaming = Some False \<rparr>],
                 datasetId = None, createdAt = 0, updatedAt = 4 \<rparr>],
           activeChat = Some ''c1'', activeDataset = None \<rparr>,
       isThinking = False \<rparr>"

definition hello_stream :: "string list" where
  \<open>hello_stream =
     [''data: {"type":"content","data":"Hel"}\<newline>data: {"type":"con'',
      ''tent","data":"lo"}\<newline>\<newline>data: {"type":"done"}\<newline>'']\<close>

definition hello_error_stream :: "string list" where
  \<open>hello_error_stream =
     [''data: {"type":"content","data":"Hel"}\<newline>'',
      ''data: {"type":"content","data":"lo"}\<newline>'',
      ''data: {"type":"error","data":"boom"}\<newline>'']\<close>

definition hello_cut_stream :: "string list" where
  \<open>hello_cut_stream =
     [''data: {"type":"content","data":"Hel"}\<newline>'',
      ''data: {"type":"content","data":"lo"}\<newline>'']\<close>

definition blank_stream :: "string list" where
  \<open>blank_stream = [''data: {"type":"content","data":" "}\<newline>data: {"type":"done"}\<newline>'']\<close>

section \<open>The turn lifecycle interleaved with user input\<close>

text \<open>
  \<^verbatim>\<open>ChatInput.handleSend\<close>: the text is sent, trimmed, when it is not blank and the
  component is not loading; \<open>isLoading\<close> is the flag \<open>isThinking\<close> of the chat
  interface.
\<close>

definition chatInput_handleSend :: "string \<Rightarrow> bool \<Rightarrow> string option" where
  "chatInput_handleSend message isLoading =
     (if trim message \<noteq> [] \<and> \<not> isLoading then Some (trim message) else None)"

text \<open>
  \<open>handleSend\<close> is asynchronous: it runs without interruption up to the request, then
  once for every fragment the reader delivers, then once more when the stream ends or
  fails, and other handlers run in between. The state of the application is the store,
  the flag, and the closure of the turn in flight (conversation id, placeholder id,
  accumulator, carry-over buffer). An event is one handler run: a send from the chat
  input, a fragment, the end or the failure of the stream, and the conversation
  actions of the sidebar. A send that the guard rejects, and a stream event without a
  turn in flight, leave the state as it is.
\<close>

record inflight =
  fl_chatId :: string
  fl_aiId :: string
  fl_fullContent :: string
  fl_buffer :: string

record app =
  app_store :: store
  app_thinking :: bool
  app_inflight :: "inflight option"

datatype event =
    Send string turn_ids date
  | Fragment string
  | StreamEnds
  | StreamFails js_exn
  | NewChat string date
  | SelectChat string
  | DeleteChat string

fun step :: "json_parse \<Rightarrow> app \<Rightarrow> event \<Rightarrow> app" where
  "step parse a (Send message ids now) =
     (case chatInput_handleSend message (app_thinking a) of
        None \<Rightarrow> a
      | Some text \<Rightarrow>
          (case handleSend_begin ids now text \<lparr> ui_store = app_store a, isThinking = app_thinking a \<rparr> of
             ((chatId, aiId, history), ui1) \<Rightarrow>
               \<lparr> app_store = ui_store ui1, app_thinking = isThinking ui1,
                 app_inflight = Some \<lparr> fl_chatId = chatId, fl_aiId = aiId,
                                       fl_fullContent = [], fl_buffer = [] \<rparr> \<rparr>))"
| "step parse a (Fragment chunk) =
     (case app_inflight a of
        None \<Rightarrow> a
      | Some fl \<Rightarrow>
          (case read_step parse (handleSend_callbacks (fl_chatId fl) (fl_aiId fl))
                  (fl_buffer fl, (app_store a, fl_fullContent fl)) chunk of
             (buffer', (st', fullContent')) \<Rightarrow>
               a\<lparr> app_store := st',
                  app_inflight := Some (fl\<lparr> fl_fullContent := fullContent', fl_buffer := buffer' \<rparr>) \<rparr>))"
| "step parse a StreamEnds =
     (case app_inflight a of
        None \<Rightarrow> a
      | Some fl \<Rightarrow>
          (let ui = handleSend_settle (fl_chatId fl) (fl_aiId fl) (fl_fullContent fl) (app_store a)
           in \<lparr> app_store = ui_store ui, app_thinking = isThinking ui, app_inflight = None \<rparr>))"
| "step parse a (StreamFails e) =
     (case app_inflight a of
        None \<Rightarrow> a
      | Some fl \<Rightarrow>
          (let ui = handleSend_catch (fl_chatId fl) (fl_aiId fl)
                      (JsError (message_or ''Unknown error occurred'' e)) (app_store a)
           in \<lparr> app_store = ui_store ui, app_thinking = isThinking ui, app_inflight = None \<rparr>))"
| "step parse a (NewChat new_id now) = a\<lparr> app_store := snd (createChat new_id now (app_store a)) \<rparr>"
| "step parse a (SelectChat cid) = a\<lparr> app_store := setActiveChat cid (app_store a) \<rparr>"
| "step parse a (DeleteChat cid) = a\<lparr> app_store := deleteChat cid (app_store a) \<rparr>"

subsection \<open>The single in-flight invariant\<close>

text \<open>
  A message is streaming when its flag is \<^verbatim>\<open>true\<close>. The store is quiet when no
  message is streaming; the application is idle when it is quiet with no turn in
  flight. A conversation is in order, relative to the turn in flight, when no message
  but its last is streaming and a streaming last message is the assistant placeholder
  of that turn.
\<close>

definition streaming :: "message \<Rightarrow> bool" where
  "streaming m = (isStreaming m = Some True)"

definition idle :: "app \<Rightarrow> bool" where
  "idle a = (\<not> app_thinking a \<and> app_inflight a = None
             \<and> list_all (\<lambda>c. list_all (\<lambda>m. \<not> streaming m) (messages c)) (chats (app_store a)))"

definition chat_ok :: "inflight option \<Rightarrow> chat \<Rightarrow> bool" where
  "chat_ok ifl c =
     (list_all (\<lambda>m. \<not> streaming m) (butlast (messages c))
      \<and> (case rev (messages c) of
           [] \<Rightarrow> True
         | m # ms \<Rightarrow>
             if streaming m
             then (case ifl of
                     None \<Rightarrow> False
                   | Some fl \<Rightarrow> chat_id c = fl_chatId fl \<and> msg_id m = fl_aiId fl \<and> msg_role m = Assistant)
             else True))"

definition turn_inv :: "app \<Rightarrow> bool" where
  "turn_inv a = ((app_thinking a \<longleftrightarrow> app_inflight a \<noteq> None)
                 \<and> list_all (chat_ok (app_inflight a)) (chats (app_store a)))"

definition quiet :: "store \<Rightarrow> bool" where
  "quiet st = list_all (\<lambda>c. list_all (\<lambda>m. \<not> streaming m) (messages c)) (chats st)"

text \<open>A run: a send, a fragment, a second send while loading, a new conversation, a fragment.\<close>

definition demo_app :: app where
  "demo_app = \<lparr> app_store = initial_store, app_thinking = False, app_inflight = None \<rparr>"

definition demo_events :: "event list" where
  \<open>demo_events =
     [Send '' hi '' demo_ids 7,
      Fragment ''data: {"type":"content","data":"Hel"}\<newline>da'',
      Send ''again'' \<lparr> new_chat_id = ''c2'', user_msg_id = ''u2'', ai_msg_id = ''a2'' \<rparr> 8,
      NewChat ''c3'' 9,
      Fragment ''ta: {"type":"content","data":"lo"}\<newline>'']\<close>

section \<open>Line splitting and the carry-over buffer\<close>

lemma split_nl_nonempty [simp]: "split_nl s \<noteq> []"
  by (induction s) (auto split: list.splits)

lemma split_nl_no_nl: "nl \<notin> set s \<Longrightarrow> split_nl s = [s]"
  by (induction s) auto

lemma split_nl_append:
  "split_nl (a @ b) = butlast (split_nl a) @ split_nl (last (split_nl a) @ b)"
proof (induction a)
  case Nil
  show ?case by simp
next
  case (Cons c cs)
  show ?case
  proof (cases "c = nl")
    case True
    with Cons show ?thesis by simp
  next
    case False
    obtain l ls where sp: "split_nl cs = l # ls"
      by (cases "split_nl cs") auto
    show ?thesis
    proof (cases ls)
      case Nil
      with False sp Cons show ?thesis by (simp split: list.splits)
    next
      case (Cons l2 ls2)
      with False sp Cons.IH show ?thesis by (simp split: list.splits)
    qed
  qed
qed

lemma split_nl_snoc_nl: "split_nl (s @ [nl]) = split_nl s @ [[]]"
  by (induction s) (auto split: list.splits)

lemma read_step_append:
  "read_step parse cbs (read_step parse cbs bs a) b = read_step parse cbs bs (a @ b)"
proof -
  have sp: "split_nl (fst bs @ a @ b) = butlast (split_nl (fst bs @ a)) @ split_nl (last (split_nl (fst bs @ a)) @ b)"
    using split_nl_append [of "fst bs @ a" b] by simp
  show ?thesis
    by (simp add: read_step_def Let_def sp butlast_append)
qed

lemma read_step_empty: "nl \<notin> set (fst bs) \<Longrightarrow> read_step parse cbs bs [] = bs"
  by (simp add: read_step_def split_nl_no_nl)

lemma read_loop_concat:
  "nl \<notin> set (fst bs) \<Longrightarrow> read_loop parse cbs frs bs = read_step parse cbs bs (concat frs)"
proof (induction frs rule: rev_induct)
  case Nil
  then show ?case by (simp add: read_loop_def read_step_empty)
next
  case (snoc f frs)
  then show ?case by (simp add: read_loop_def read_step_append)
qed

lemma trim_empty_iff: "trim s = [] \<longleftrightarrow> list_all is_ws s"
proof -
  have "dropWhile is_ws s = [] \<longleftrightarrow> list_all is_ws s"
    by (simp add: list_all_iff)
  moreover have "dropWhile is_ws (rev (dropWhile is_ws s)) = [] \<longleftrightarrow> dropWhile is_ws s = []"
  proof (cases "dropWhile is_ws s")
    case Nil
    then show ?thesis by (simp only: rev.simps dropWhile.simps)
  next
    case (Cons y ys)
    then have "\<not> is_ws y" using hd_dropWhile [of is_ws s] by simp
    with Cons show ?thesis by auto
  qed
  ultimately show ?thesis by (simp add: trim_def)
qed

lemma split_nl_last_complete:
  "whole = [] \<or> last whole = nl \<Longrightarrow> last (split_nl whole) = []"
proof (cases "whole = []")
  case True
  then show ?thesis by simp
next
  case False
  assume "whole = [] \<or> last whole = nl"
  with False have "whole = butlast whole @ [nl]"
    using append_butlast_last_id [of whole] by simp
  then have "split_nl whole = split_nl (butlast whole) @ [[]]"
    using split_nl_snoc_nl [of "butlast whole"] by simp
  then show ?thesis by simp
qed

lemma process_line_recorder:
  "process_line parse recorder line lg = lg @ line_calls parse line"
  by (simp add: line_calls_def process_line_def recorder_def split: option.splits)

lemma process_line_replay:
  "process_line parse cbs line s = foldl (replay cbs) s (line_calls parse line)"
  by (auto simp: line_calls_def process_line_def recorder_def replay_def split: option.splits)

lemma lines_replay:
  "foldl (\<lambda>s l. process_line parse cbs l s) s ls
     = foldl (replay cbs) s (concat (map (line_calls parse) ls))"
  by (induction ls arbitrary: s) (simp_all add: process_line_replay)

lemma lines_recorder:
  "foldl (\<lambda>s l. process_line parse recorder l s) lg ls
     = lg @ concat (map (line_calls parse) ls)"
  by (induction ls arbitrary: lg) (simp_all add: process_line_recorder)

lemma decoded_calls_lines:
  "decoded_calls parse frs = concat (map (line_calls parse) (butlast (split_nl (concat frs))))"
  by (simp add: decoded_calls_def read_loop_concat read_step_def Let_def lines_recorder)

lemma read_loop_replay:
  "read_loop parse cbs frs ([], s)
     = (last (split_nl (concat frs)), foldl (replay cbs) s (decoded_calls parse frs))"
  by (simp add: decoded_calls_lines read_loop_concat read_step_def Let_def lines_replay)

lemma split_nl_whole_partial:
  assumes "nl \<notin> set partial" and "whole = [] \<or> last whole = nl"
  shows "split_nl (whole @ partial) = butlast (split_nl whole) @ [partial]"
  using split_nl_append [of whole partial] split_nl_last_complete [OF assms(2)] assms(1)
  by (simp add: split_nl_no_nl)

lemma line_calls_frame:
  "line_calls parse (''data: '' @ d)
     = (case parse d of None \<Rightarrow> []
        | Some p \<Rightarrow>
            (if ptype p = Some ''content'' then [ChunkCall (pdata p)]
             else if ptype p = Some ''done'' then [DoneCall]
             else if ptype p = Some ''error'' then [ErrorCall (pdata p)] else []))"
proof -
  have "\<not> list_all is_ws (''data: '' @ d)"
    by (simp add: is_ws_def)
  then have "trim (''data: '' @ d) \<noteq> []"
    by (simp add: trim_empty_iff)
  then show ?thesis
    by (auto simp: line_calls_def process_line_def startsWith_def slice_from_def recorder_def
             split: option.splits)
qed

lemma split_nl_frame:
  assumes "nl \<notin> set d" and "pre = [] \<or> last pre = nl"
  shows "butlast (split_nl (pre @ sse_frame d @ post))
           = butlast (split_nl pre) @ [''data: '' @ d] @ butlast (split_nl post)"
proof -
  have n: "nl \<notin> set (''data: '' @ d)" using assms(1) by (simp add: nl_def)
  have "split_nl (pre @ (''data: '' @ d)) = butlast (split_nl pre) @ [''data: '' @ d]"
    by (rule split_nl_whole_partial [OF n assms(2)])
  then have "split_nl ((pre @ (''data: '' @ d)) @ [nl]) = butlast (split_nl pre) @ [''data: '' @ d, []]"
    using split_nl_snoc_nl [of "pre @ (''data: '' @ d)"] by simp
  then have "split_nl (((pre @ (''data: '' @ d)) @ [nl]) @ post)
               = (butlast (split_nl pre) @ [''data: '' @ d]) @ split_nl post"
    using split_nl_append [of "(pre @ (''data: '' @ d)) @ [nl]" post] by (simp add: butlast_append)
  then show ?thesis
    by (simp add: sse_frame_def butlast_append)
qed

lemma replay_logged_step:
  "replay (logged cbs) (s, lg) c = (replay cbs s c, if supplied cbs c then lg @ [c] else lg)"
  by (cases c) (auto simp: replay_def logged_def supplied_def split: option.splits prod.splits)

lemma replay_logged:
  "foldl (replay (logged cbs)) (s, lg) calls
     = (foldl (replay cbs) s calls, lg @ filter (supplied cbs) calls)"
  by (induction calls arbitrary: s lg) (simp_all add: replay_logged_step)

lemma chat_stream_decomposed:
  "chat_stream parse res cbs s
     = (foldl (replay cbs) s (decoded_calls parse (fragments_read res)), stream_failure res)"
proof (cases res)
  case (FetchRejects e)
  then show ?thesis
    by (simp add: chat_stream_def stream_failure_def fragments_read_def decoded_calls_lines)
next
  case (FetchResolves r)
  show ?thesis
  proof (cases "ok r")
    case False
    with FetchResolves show ?thesis
      by (simp add: chat_stream_def stream_failure_def fragments_read_def decoded_calls_lines)
  next
    case True
    show ?thesis
    proof (cases "body r")
      case None
      with True FetchResolves show ?thesis
        by (simp add: chat_stream_def stream_failure_def fragments_read_def decoded_calls_lines)
    next
      case (Some b)
      with True FetchResolves show ?thesis
        by (simp add: chat_stream_def stream_failure_def fragments_read_def read_loop_replay
                 split: stream_end.splits)
    qed
  qed
qed

lemma chat_stream_logged:
  "chat_stream parse res (logged cbs) (s, [])
     = ((foldl (replay cbs) s (decoded_calls parse (fragments_read res)),
         filter (supplied cbs) (decoded_calls parse (fragments_read res))), stream_failure res)"
  by (simp add: chat_stream_decomposed replay_logged)

lemma onError_logged:
  "onError cbs = Some f \<Longrightarrow>
     onError (logged cbs) = Some (\<lambda>d sl. (case f d (fst sl) of (s', e) \<Rightarrow> ((s', snd sl @ [ErrorCall d]), e)))"
  by (simp add: logged_def)

section \<open>Store patches and the turn\<close>

lemma find_chat_map:
  assumes "\<And>c. chat_id (g c) = chat_id c"
  shows "find_chat cid (st\<lparr> chats := map g (chats st) \<rparr>) = map_option g (find_chat cid st)"
proof -
  have "find (\<lambda>c. chat_id c = cid) (map g cs) = map_option g (find (\<lambda>c. chat_id c = cid) cs)" for cs
    by (induction cs) (simp_all add: assms)
  then show ?thesis by (simp add: find_chat_def)
qed

lemma find_chat_updateMessage:
  "find_chat cid (updateMessage cid' mid u st)
     = map_option (\<lambda>c. if chat_id c = cid'
                         then c\<lparr> messages := map (\<lambda>m. if msg_id m = mid then apply_updates m u else m) (messages c) \<rparr>
                         else c) (find_chat cid st)"
  unfolding updateMessage_def by (rule find_chat_map) simp

lemma find_chat_addMessage:
  "find_chat cid (addMessage cid' m now st)
     = map_option (\<lambda>c. if chat_id c = cid'
                         then c\<lparr> messages := messages c @ [m], updatedAt := now,
                                 title := (if length (messages c) = 0
                                           then slice_to 40 (content m) @ ''...'' else title c) \<rparr>
                         else c) (find_chat cid st)"
  unfolding addMessage_def by (rule find_chat_map) simp

lemma find_chat_Some_id: "find_chat cid st = Some c \<Longrightarrow> chat_id c = cid"
  by (auto simp: find_chat_def find_Some_iff)

lemma messages_with_updateMessage:
  assumes "upd_id u = None"
  shows "messages_with cid mid (updateMessage cid mid u st)
           = map (\<lambda>m. apply_updates m u) (messages_with cid mid st)"
proof (cases "find_chat cid st")
  case None
  then show ?thesis by (simp add: messages_with_def find_chat_updateMessage)
next
  case (Some c)
  have id: "msg_id (apply_updates m u) = msg_id m" for m
    using assms by (simp add: apply_updates_def)
  have "filter (\<lambda>m. msg_id m = mid) (map (\<lambda>m. if msg_id m = mid then apply_updates m u else m) ms)
          = map (\<lambda>m. apply_updates m u) (filter (\<lambda>m. msg_id m = mid) ms)" for ms
    by (induction ms) (simp_all add: id)
  with Some find_chat_Some_id [OF Some] show ?thesis
    by (simp add: messages_with_def find_chat_updateMessage)
qed

lemma accumulated_snoc:
  "accumulated (calls @ [c])
     = accumulated calls @ (case c of ChunkCall d \<Rightarrow> concat_arg d | DoneCall \<Rightarrow> [] | ErrorCall d \<Rightarrow> [])"
  by (simp add: accumulated_def)

lemma replay_handleSend_callbacks:
  "foldl (replay (handleSend_callbacks cid aid)) (st, fc) calls = (st', fc') \<Longrightarrow>
     fc' = fc @ accumulated calls
     \<and> messages_with cid aid st'
         = (if list_ex is_chunk_call calls
            then map (\<lambda>m. m\<lparr> content := fc' \<rparr>) (messages_with cid aid st)
            else messages_with cid aid st)"
proof (induction calls arbitrary: st' fc' rule: rev_induct)
  case Nil
  then show ?case by (simp add: accumulated_def)
next
  case (snoc c calls)
  obtain st1 fc1 where mid: "foldl (replay (handleSend_callbacks cid aid)) (st, fc) calls = (st1, fc1)"
    by (cases "foldl (replay (handleSend_callbacks cid aid)) (st, fc) calls") auto
  note ih = snoc.IH [OF mid]
  from snoc.prems mid have step: "replay (handleSend_callbacks cid aid) (st1, fc1) c = (st', fc')"
    by simp
  show ?case
  proof (cases c)
    case (ChunkCall d)
    with step have e: "fc' = fc1 @ concat_arg d"
      and s: "st' = updateMessage cid aid (no_updates\<lparr> upd_content := Some (fc1 @ concat_arg d) \<rparr>) st1"
      by (auto simp: replay_def handleSend_callbacks_def Let_def)
    have "messages_with cid aid st' = map (\<lambda>m. m\<lparr> content := fc' \<rparr>) (messages_with cid aid st1)"
      unfolding s e
      by (subst messages_with_updateMessage) (simp_all add: no_updates_def apply_updates_def)
    with ih e ChunkCall show ?thesis
      by (simp add: accumulated_snoc is_chunk_call_def comp_def)
  next
    case DoneCall
    with step have "st' = st1" "fc' = fc1"
      by (auto simp: replay_def handleSend_callbacks_def)
    with ih DoneCall show ?thesis
      by (simp add: accumulated_snoc is_chunk_call_def)
  next
    case (ErrorCall d)
    with step have "st' = st1" "fc' = fc1"
      by (auto simp: replay_def handleSend_callbacks_def)
    with ih ErrorCall show ?thesis
      by (simp add: accumulated_snoc is_chunk_call_def)
  qed
qed

lemma accumulated_none: "\<not> list_ex is_chunk_call calls \<Longrightarrow> accumulated calls = []"
  by (induction calls) (auto simp: accumulated_def is_chunk_call_def split: call.splits)

lemma handleSend_begin_result:
  "handleSend_begin ids now text ui = ((chatId, aiId, history), ui1) \<Longrightarrow>
     aiId = ai_msg_id ids \<and> history = build_history (current_messages (ui_store ui)) \<and> isThinking ui1"
  by (auto simp: handleSend_begin_def Let_def split: prod.splits)

lemma find_chat_createChat:
  "find_chat new_id (snd (createChat new_id now st))
     = Some \<lparr> chat_id = new_id, title = ''New Conversation'', messages = [],
              datasetId = activeDataset st, createdAt = now, updatedAt = now \<rparr>"
  by (simp add: createChat_def find_chat_def Let_def)

lemma handleSend_begin_placeholder:
  assumes "turn_ready ids (ui_store ui)"
      and "handleSend_begin ids now text ui = ((chatId, aiId, history), ui1)"
  shows "messages_with chatId aiId (ui_store ui1) = [placeholder ids now]"
proof -
  let ?st = "ui_store ui"
  from assms(1) have neq: "user_msg_id ids \<noteq> ai_msg_id ids"
    and fresh: "list_all (\<lambda>m. msg_id m \<noteq> ai_msg_id ids) (current_messages ?st)"
    by (simp_all add: turn_ready_def)
  show ?thesis
  proof (cases "activeChat ?st = None \<or> activeChat ?st = Some []")
    case True
    then have "chatId = new_chat_id ids" and
      "ui_store ui1 = addMessage (new_chat_id ids) (placeholder ids now) now
          (addMessage (new_chat_id ids)
             \<lparr> msg_id = user_msg_id ids, msg_role = User, content = text,
               timestamp = now, citations = None, hasChart = None,
               chartData = None, isStreaming = None \<rparr> now (snd (createChat (new_chat_id ids) now ?st)))"
      and "aiId = ai_msg_id ids"
      using assms(2)
      by (auto simp: handleSend_begin_def Let_def placeholder_def createChat_def split: prod.splits)
    then show ?thesis
      using neq
      by (simp add: messages_with_def find_chat_addMessage find_chat_createChat placeholder_def)
  next
    case False
    then obtain a where a: "activeChat ?st = Some a" "a \<noteq> []" by auto
    with assms(1) obtain c where c: "find_chat a ?st = Some c"
      by (auto simp: turn_ready_def)
    from a c have cm: "current_messages ?st = messages c"
      by (simp add: current_messages_def)
    from a have "chatId = a" and
      "ui_store ui1 = addMessage a (placeholder ids now) now
          (addMessage a
             \<lparr> msg_id = user_msg_id ids, msg_role = User, content = text,
               timestamp = now, citations = None, hasChart = None,
               chartData = None, isStreaming = None \<rparr> now ?st)"
      and "aiId = ai_msg_id ids"
      using assms(2)
      by (auto simp: handleSend_begin_def Let_def placeholder_def split: prod.splits)
    moreover have "filter (\<lambda>m. msg_id m = ai_msg_id ids) (messages c) = []"
      using fresh cm by (simp add: list_all_iff filter_empty_conv)
    ultimately show ?thesis
      using neq c find_chat_Some_id [OF c]
      by (simp add: messages_with_def find_chat_addMessage placeholder_def)
  qed
qed

lemma sendChatMessage_handleSend_callbacks:
  "sendChatMessage parse fetch text history dsId (handleSend_callbacks cid aid) (st, fc)
     = (let req = \<lparr> req_message = text, req_history = history, req_datasetId = dsId \<rparr>;
            sf = foldl (replay (handleSend_callbacks cid aid)) (st, fc)
                   (decoded_calls parse (fragments_read (fetch req)))
        in (req, sf, map_option (\<lambda>e. JsError (message_or ''Unknown error occurred'' e))
                       (stream_failure (fetch req))))"
  by (simp add: sendChatMessage_def chat_stream_decomposed Let_def handleSend_callbacks_def
        error_message_of_def split: option.splits)

lemma accumulated_chunks:
  "accumulated (map (\<lambda>c. ChunkCall (Some c)) cs @ [DoneCall]) = concat cs"
  by (induction cs) (simp_all add: accumulated_def concat_arg_def)

lemma list_ex_chunks:
  "list_ex is_chunk_call (map (\<lambda>c. ChunkCall (Some c)) cs @ [DoneCall]) \<longleftrightarrow> cs \<noteq> []"
  by (cases cs) (simp_all add: is_chunk_call_def)

lemma handleSend_unfolded:
  assumes "handleSend_begin ids now text ui = ((chatId, aiId, history), ui1)"
      and "foldl (replay (handleSend_callbacks chatId aiId)) (ui_store ui1, [])
             (decoded_calls parse (fragments_read (fetch (turn_request text ui)))) = (st', fc)"
  shows "handleSend parse fetch ids now text ui
           = (turn_request text ui,
              case stream_failure (fetch (turn_request text ui)) of
                None \<Rightarrow> handleSend_settle chatId aiId fc st'
              | Some e \<Rightarrow> handleSend_catch chatId aiId
                           (JsError (message_or ''Unknown error occurred'' e)) st')"
proof -
  have h: "history = build_history (current_messages (ui_store ui))"
    using handleSend_begin_result [OF assms(1)] by simp
  show ?thesis
    using assms(2)
    by (simp add: handleSend_def assms(1) sendChatMessage_handleSend_callbacks Let_def h
          turn_request_def split: option.splits)
qed

lemma handleSend_request: "fst (handleSend parse fetch ids now text ui) = turn_request text ui"
proof -
  obtain chatId aiId history ui1 where b: "handleSend_begin ids now text ui = ((chatId, aiId, history), ui1)"
    by (metis prod.exhaust)
  obtain st' fc where r: "foldl (replay (handleSend_callbacks chatId aiId)) (ui_store ui1, [])
             (decoded_calls parse (fragments_read (fetch (turn_request text ui)))) = (st', fc)"
    by (metis prod.exhaust)
  show ?thesis by (simp add: handleSend_unfolded [where fetch = fetch and parse = parse, OF b r])
qed

lemma blank_iff: "(s = [] \<or> trim s = []) \<longleftrightarrow> list_all is_ws s"
  by (auto simp: trim_empty_iff)

lemma before_terminal:
  assumes "turn_ready ids (ui_store ui)"
      and "handleSend_begin ids now text ui = ((chatId, aiId, history), ui1)"
      and "foldl (replay (handleSend_callbacks chatId aiId)) (ui_store ui1, []) calls = (st', fc)"
  shows "fc = accumulated calls
       \<and> messages_with chatId aiId st' = [(placeholder ids now)\<lparr> content := accumulated calls \<rparr>]"
proof -
  have ph: "messages_with chatId aiId (ui_store ui1) = [placeholder ids now]"
    by (rule handleSend_begin_placeholder [OF assms(1,2)])
  have fc: "fc = accumulated calls"
    using replay_handleSend_callbacks [OF assms(3)] by simp
  have mw: "messages_with chatId aiId st'
         = (if list_ex is_chunk_call calls
            then map (\<lambda>m. m\<lparr> content := fc \<rparr>) (messages_with chatId aiId (ui_store ui1))
            else messages_with chatId aiId (ui_store ui1))"
    using replay_handleSend_callbacks [OF assms(3)] by blast
  have "messages_with chatId aiId st' = [(placeholder ids now)\<lparr> content := accumulated calls \<rparr>]"
  proof (cases "list_ex is_chunk_call calls")
    case True
    with mw fc show ?thesis by (simp add: ph)
  next
    case False
    then have "accumulated calls = []" by (rule accumulated_none)
    with False mw show ?thesis by (simp add: ph placeholder_def)
  qed
  with fc show ?thesis by simp
qed

lemma demo_ready: "turn_ready demo_ids (ui_store demo_ui)"
  by code_simp

lemma demo_begin:
  "handleSend_begin demo_ids 7 ''hi'' demo_ui
     = ((''c1'', ''a1'', []), snd (handleSend_begin demo_ids 7 ''hi'' demo_ui))"
  by code_simp

section \<open>Preservation of the invariant\<close>

lemma list_all_map_impl:
  "list_all P xs \<Longrightarrow> (\<And>x. P x \<Longrightarrow> Q (g x)) \<Longrightarrow> list_all Q (map g xs)"
  by (induction xs) simp_all

lemma chat_ok_quiet:
  "list_all (\<lambda>m. \<not> streaming m) (messages c) \<Longrightarrow> chat_ok ifl c"
proof -
  assume q: "list_all (\<lambda>m. \<not> streaming m) (messages c)"
  then have "list_all (\<lambda>m. \<not> streaming m) (butlast (messages c))"
    by (auto simp: list_all_iff dest: in_set_butlastD)
  moreover have "messages c \<noteq> [] \<Longrightarrow> \<not> streaming (last (messages c))"
    using q by (simp add: list_all_iff)
  ultimately show ?thesis
    by (cases "messages c" rule: rev_cases) (auto simp: chat_ok_def)
qed

lemma chat_ok_None_quiet:
  "chat_ok None c \<Longrightarrow> list_all (\<lambda>m. \<not> streaming m) (messages c)"
  by (cases "messages c" rule: rev_cases) (auto simp: chat_ok_def split: if_splits)

lemma chat_ok_map:
  assumes "chat_ok ifl c"
      and "chat_id c' = chat_id c"
      and "messages c' = map f (messages c)"
      and "\<And>m. streaming (f m) \<Longrightarrow> streaming m \<and> msg_id (f m) = msg_id m \<and> msg_role (f m) = msg_role m"
  shows "chat_ok ifl c'"
proof (cases "messages c" rule: rev_cases)
  case Nil
  with assms(3) show ?thesis by (simp add: chat_ok_def)
next
  case (snoc ms m)
  from assms(1) snoc have a: "list_all (\<lambda>m. \<not> streaming m) ms"
    and b: "streaming m \<Longrightarrow> (case ifl of None \<Rightarrow> False
              | Some fl \<Rightarrow> chat_id c = fl_chatId fl \<and> msg_id m = fl_aiId fl \<and> msg_role m = Assistant)"
    by (auto simp: chat_ok_def split: if_splits)
  from a assms(4) have "list_all (\<lambda>m. \<not> streaming m) (map f ms)"
    by (auto simp: list_all_iff)
  moreover have "streaming (f m) \<Longrightarrow> (case ifl of None \<Rightarrow> False
              | Some fl \<Rightarrow> chat_id c' = fl_chatId fl \<and> msg_id (f m) = fl_aiId fl \<and> msg_role (f m) = Assistant)"
    using b assms(2,4) by (auto split: option.splits)
  ultimately show ?thesis
    using assms(3) snoc by (simp add: chat_ok_def)
qed

lemma chats_ok_updateMessage:
  assumes "list_all (chat_ok ifl) (chats st)"
      and "upd_id u = None" and "upd_role u = None"
      and "upd_isStreaming u = None \<or> upd_isStreaming u = Some (Some False) \<or> upd_isStreaming u = Some None"
  shows "list_all (chat_ok ifl) (chats (updateMessage cid mid u st))"
proof -
  have f: "streaming (if msg_id m = mid then apply_updates m u else m)
           \<Longrightarrow> streaming m \<and> msg_id (if msg_id m = mid then apply_updates m u else m) = msg_id m
               \<and> msg_role (if msg_id m = mid then apply_updates m u else m) = msg_role m" for m
    using assms(2,3,4) by (auto simp: apply_updates_def streaming_def split: if_splits)
  have "chat_ok ifl c \<Longrightarrow> chat_ok ifl
          (if chat_id c = cid
           then c\<lparr> messages := map (\<lambda>m. if msg_id m = mid then apply_updates m u else m) (messages c) \<rparr>
           else c)" for c
    using chat_ok_map [where c = c and f = "\<lambda>m. if msg_id m = mid then apply_updates m u else m", OF _ _ _ f]
    by simp
  with assms(1) have "list_all (chat_ok ifl)
      (map (\<lambda>c. if chat_id c = cid
                then c\<lparr> messages := map (\<lambda>m. if msg_id m = mid then apply_updates m u else m) (messages c) \<rparr>
                else c) (chats st))"
    by (rule list_all_map_impl)
  then show ?thesis
    by (simp add: updateMessage_def)
qed

lemma quiet_chats_ok: "quiet st \<Longrightarrow> list_all (chat_ok ifl) (chats st)"
  by (auto simp: quiet_def list_all_iff intro: chat_ok_quiet)

lemma chats_ok_None_quiet: "list_all (chat_ok None) (chats st) \<Longrightarrow> quiet st"
  using chat_ok_None_quiet by (auto simp: quiet_def list_all_iff)

lemma replay_keeps_chats_ok:
  assumes "list_all (chat_ok ifl) (chats (fst sf))"
  shows "list_all (chat_ok ifl) (chats (fst (replay (handleSend_callbacks cid aid) sf c)))"
proof (cases c)
  case (ChunkCall d)
  have "list_all (chat_ok ifl)
          (chats (updateMessage cid aid (no_updates\<lparr> upd_content := Some (snd sf @ concat_arg d) \<rparr>) (fst sf)))"
    using assms by (rule chats_ok_updateMessage) (simp_all add: no_updates_def)
  with ChunkCall show ?thesis
    by (simp add: replay_def handleSend_callbacks_def Let_def)
next
  case DoneCall
  with assms show ?thesis by (simp add: replay_def handleSend_callbacks_def)
next
  case (ErrorCall d)
  with assms show ?thesis by (simp add: replay_def handleSend_callbacks_def)
qed

lemma replays_keep_chats_ok:
  "list_all (chat_ok ifl) (chats (fst sf)) \<Longrightarrow>
     list_all (chat_ok ifl) (chats (fst (foldl (replay (handleSend_callbacks cid aid)) sf calls)))"
  by (induction calls arbitrary: sf) (simp_all add: replay_keeps_chats_ok)

lemma read_step_keeps_chats_ok:
  assumes "list_all (chat_ok ifl) (chats st)"
      and "read_step parse (handleSend_callbacks cid aid) (buf, (st, fc)) chunk = (buf', (st', fc'))"
  shows "list_all (chat_ok ifl) (chats st')"
proof -
  have "(st', fc') = foldl (replay (handleSend_callbacks cid aid)) (st, fc)
                       (concat (map (line_calls parse) (butlast (split_nl (buf @ chunk)))))"
    using assms(2) by (simp add: read_step_def Let_def lines_replay)
  then have "st' = fst (foldl (replay (handleSend_callbacks cid aid)) (st, fc)
                       (concat (map (line_calls parse) (butlast (split_nl (buf @ chunk))))))"
    by (metis fst_conv)
  then show ?thesis
    using replays_keep_chats_ok [of ifl "(st, fc)" cid aid] assms(1) by simp
qed

lemma quiet_createChat: "quiet st \<Longrightarrow> quiet (snd (createChat new_id now st))"
  by (simp add: quiet_def createChat_def Let_def)

lemma chats_ok_createChat:
  "list_all (chat_ok ifl) (chats st) \<Longrightarrow> list_all (chat_ok ifl) (chats (snd (createChat new_id now st)))"
  by (simp add: createChat_def Let_def chat_ok_def)

lemma chats_ok_deleteChat:
  "list_all (chat_ok ifl) (chats st) \<Longrightarrow> list_all (chat_ok ifl) (chats (deleteChat cid st))"
  by (simp add: deleteChat_def list_all_iff)

lemma chats_ok_setActiveChat:
  "list_all (chat_ok ifl) (chats st) \<Longrightarrow> list_all (chat_ok ifl) (chats (setActiveChat cid st))"
  by (simp add: setActiveChat_def)

lemma quiet_addMessage:
  assumes "quiet st" and "\<not> streaming m"
  shows "quiet (addMessage cid m now st)"
proof -
  have "list_all (\<lambda>c. list_all (\<lambda>m. \<not> streaming m) (messages c))
          (map (\<lambda>c. if chat_id c = cid
                     then c\<lparr> messages := messages c @ [m], updatedAt := now,
                             title := (if length (messages c) = 0
                                       then slice_to 40 (content m) @ ''...'' else title c) \<rparr>
                     else c) (chats st))"
    using assms(1) [unfolded quiet_def]
    by (rule list_all_map_impl) (simp add: assms(2))
  then show ?thesis by (simp add: quiet_def addMessage_def)
qed

lemma chats_ok_addMessage_placeholder:
  assumes "quiet st" and "msg_id m = aid" and "msg_role m = Assistant"
  shows "list_all (chat_ok (Some \<lparr> fl_chatId = cid, fl_aiId = aid, fl_fullContent = fc, fl_buffer = b \<rparr>))
           (chats (addMessage cid m now st))"
proof -
  let ?fl = "\<lparr> fl_chatId = cid, fl_aiId = aid, fl_fullContent = fc, fl_buffer = b \<rparr>"
  have one: "list_all (\<lambda>m. \<not> streaming m) (messages c) \<Longrightarrow>
        chat_ok (Some ?fl)
          (if chat_id c = cid
           then c\<lparr> messages := messages c @ [m], updatedAt := now,
                   title := (if length (messages c) = 0
                             then slice_to 40 (content m) @ ''...'' else title c) \<rparr>
           else c)" for c
    using assms(2,3) chat_ok_quiet [of c "Some ?fl"] by (simp add: chat_ok_def)
  have "list_all (chat_ok (Some ?fl))
          (map (\<lambda>c. if chat_id c = cid
                     then c\<lparr> messages := messages c @ [m], updatedAt := now,
                             title := (if length (messages c) = 0
                                       then slice_to 40 (content m) @ ''...'' else title c) \<rparr>
                     else c) (chats st))"
    using assms(1) [unfolded quiet_def] one by (rule list_all_map_impl)
  then show ?thesis by (simp add: addMessage_def)
qed

lemma handleSend_begin_chats_ok:
  assumes "quiet (ui_store ui)"
      and "handleSend_begin ids now text ui = ((chatId, aiId, history), ui1)"
  shows "list_all (chat_ok (Some \<lparr> fl_chatId = chatId, fl_aiId = aiId, fl_fullContent = [], fl_buffer = [] \<rparr>))
           (chats (ui_store ui1)) \<and> isThinking ui1"
proof -
  let ?user = "\<lparr> msg_id = user_msg_id ids, msg_role = User, content = text,
                  timestamp = now, citations = None, hasChart = None,
                  chartData = None, isStreaming = None \<rparr>"
  let ?ai = "\<lparr> msg_id = ai_msg_id ids, msg_role = Assistant, content = [],
                timestamp = now, citations = None, hasChart = None,
                chartData = None, isStreaming = Some True \<rparr>"
  obtain st1 where st1: "quiet st1"
    and res: "ui_store ui1 = addMessage chatId ?ai now (addMessage chatId ?user now st1)"
    and ai: "aiId = ai_msg_id ids" and th: "isThinking ui1"
  proof (cases "activeChat (ui_store ui) = None \<or> activeChat (ui_store ui) = Some []")
    case True
    then have "ui_store ui1 = addMessage chatId ?ai now
                 (addMessage chatId ?user now (snd (createChat (new_chat_id ids) now (ui_store ui))))"
      and "aiId = ai_msg_id ids" and "isThinking ui1"
      using assms(2) by (auto simp: handleSend_begin_def Let_def split: prod.splits)
    then show ?thesis using that quiet_createChat [OF assms(1)] by blast
  next
    case False
    then have "ui_store ui1 = addMessage chatId ?ai now (addMessage chatId ?user now (ui_store ui))"
      and "aiId = ai_msg_id ids" and "isThinking ui1"
      using assms(2) by (auto simp: handleSend_begin_def Let_def split: prod.splits)
    then show ?thesis using that assms(1) by blast
  qed
  have "quiet (addMessage chatId ?user now st1)"
    using st1 by (rule quiet_addMessage) (simp add: streaming_def)
  then have "list_all (chat_ok (Some \<lparr> fl_chatId = chatId, fl_aiId = aiId, fl_fullContent = [], fl_buffer = [] \<rparr>))
           (chats (addMessage chatId ?ai now (addMessage chatId ?user now st1)))"
    by (rule chats_ok_addMessage_placeholder) (simp_all add: ai)
  with res th show ?thesis by simp
qed

lemma quiet_after_terminal_patch:
  assumes "list_all (chat_ok (Some fl)) (chats st)"
      and "upd_id u = None" and "upd_isStreaming u = Some (Some False)"
  shows "quiet (updateMessage (fl_chatId fl) (fl_aiId fl) u st)"
proof -
  let ?f = "\<lambda>m. if msg_id m = fl_aiId fl then apply_updates m u else m"
  have nf: "\<not> streaming m \<Longrightarrow> \<not> streaming (?f m)" for m
    using assms(3) by (simp add: streaming_def apply_updates_def)
  have one: "list_all (\<lambda>m. \<not> streaming m)
               (messages (if chat_id c = fl_chatId fl then c\<lparr> messages := map ?f (messages c) \<rparr> else c))"
    if ok: "chat_ok (Some fl) c" for c
  proof (cases "messages c" rule: rev_cases)
    case Nil
    then show ?thesis by simp
  next
    case (snoc ms m)
    from ok snoc have a: "list_all (\<lambda>m. \<not> streaming m) ms"
      and b: "streaming m \<Longrightarrow> chat_id c = fl_chatId fl \<and> msg_id m = fl_aiId fl"
      by (auto simp: chat_ok_def split: if_splits)
    have "\<not> streaming (?f m)" if "chat_id c = fl_chatId fl"
      using assms(3) b by (cases "streaming m") (auto simp: streaming_def apply_updates_def)
    moreover have "\<not> streaming m" if "chat_id c \<noteq> fl_chatId fl"
      using b that by blast
    moreover have "list_all (\<lambda>m. \<not> streaming m) (map ?f ms)"
      using a nf by (rule list_all_map_impl)
    ultimately show ?thesis
      using snoc a by auto
  qed
  have "list_all (\<lambda>c. list_all (\<lambda>m. \<not> streaming m) (messages c))
          (map (\<lambda>c. if chat_id c = fl_chatId fl then c\<lparr> messages := map ?f (messages c) \<rparr> else c) (chats st))"
    using assms(1) one by (rule list_all_map_impl)
  then show ?thesis by (simp add: quiet_def updateMessage_def)
qed

lemma chat_ok_property:
  assumes "chat_ok ifl c"
  shows "length (filter streaming (messages c)) \<le> 1
       \<and> (\<forall>i < length (messages c). streaming (messages c ! i) \<longrightarrow>
             Suc i = length (messages c) \<and> msg_role (messages c ! i) = Assistant
             \<and> (\<exists>fl. ifl = Some fl \<and> fl_chatId fl = chat_id c \<and> fl_aiId fl = msg_id (messages c ! i)))"
proof (cases "messages c" rule: rev_cases)
  case Nil
  then show ?thesis by simp
next
  case (snoc ms m)
  from assms snoc have a: "list_all (\<lambda>m. \<not> streaming m) ms"
    and b: "streaming m \<Longrightarrow> msg_role m = Assistant
              \<and> (\<exists>fl. ifl = Some fl \<and> fl_chatId fl = chat_id c \<and> fl_aiId fl = msg_id m)"
    by (auto simp: chat_ok_def split: if_splits option.splits)
  from a have f: "filter streaming ms = []"
    by (simp add: list_all_iff filter_empty_conv)
  have idx: "streaming ((ms @ [m]) ! i) \<Longrightarrow> i < length (ms @ [m]) \<Longrightarrow> i = length ms" for i
  proof (rule ccontr)
    assume s: "streaming ((ms @ [m]) ! i)" and l: "i < length (ms @ [m])" and n: "i \<noteq> length ms"
    then have "i < length ms" by simp
    then have "(ms @ [m]) ! i \<in> set ms" by (simp add: nth_append)
    with a s show False by (simp add: list_all_iff)
  qed
  show ?thesis
    unfolding snoc
  proof (intro conjI allI impI)
    show "length (filter streaming (ms @ [m])) \<le> 1" by (simp add: f)
  next
    fix i assume "i < length (ms @ [m])" "streaming ((ms @ [m]) ! i)"
    then have "i = length ms" using idx by blast
    then show "Suc i = length (ms @ [m])" by simp
  next
    fix i assume l: "i < length (ms @ [m])" and s: "streaming ((ms @ [m]) ! i)"
    then have i: "i = length ms" using idx by blast
    with s b show "msg_role ((ms @ [m]) ! i) = Assistant" by simp
  next
    fix i assume l: "i < length (ms @ [m])" and s: "streaming ((ms @ [m]) ! i)"
    then have i: "i = length ms" using idx by blast
    with s b show "\<exists>fl. ifl = Some fl \<and> fl_chatId fl = chat_id c \<and> fl_aiId fl = msg_id ((ms @ [m]) ! i)"
      by simp
  qed
qed

lemma idle_turn_inv: "idle a \<Longrightarrow> turn_inv a"
  using quiet_chats_ok [of "app_store a" None] by (simp add: idle_def turn_inv_def quiet_def)

lemma step_keeps_turn_inv:
  assumes "turn_inv a"
  shows "turn_inv (step parse a ev)"
proof (cases ev)
  case (Send message ids now)
  show ?thesis
  proof (cases "chatInput_handleSend message (app_thinking a)")
    case None
    with Send assms show ?thesis by simp
  next
    case (Some sent)
    then have "\<not> app_thinking a"
      by (simp add: chatInput_handleSend_def split: if_splits)
    with assms have i: "app_inflight a = None"
      by (simp add: turn_inv_def)
    from assms have "list_all (chat_ok (app_inflight a)) (chats (app_store a))"
      by (simp add: turn_inv_def)
    then have "list_all (chat_ok None) (chats (app_store a))"
      unfolding i .
    then have q: "quiet (app_store a)" by (rule chats_ok_None_quiet)
    obtain chatId aiId history ui1 where
      b: "handleSend_begin ids now sent \<lparr> ui_store = app_store a, isThinking = app_thinking a \<rparr>
            = ((chatId, aiId, history), ui1)"
      by (metis prod.exhaust)
    from q have "quiet (ui_store \<lparr> ui_store = app_store a, isThinking = app_thinking a \<rparr>)" by simp
    from handleSend_begin_chats_ok [OF this b] Send Some b show ?thesis
      by (simp add: turn_inv_def)
  qed
next
  case (Fragment chunk)
  show ?thesis
  proof (cases "app_inflight a")
    case None
    with Fragment assms show ?thesis by simp
  next
    case (Some fl)
    obtain buffer' st' fc' where
      r: "read_step parse (handleSend_callbacks (fl_chatId fl) (fl_aiId fl))
            (fl_buffer fl, (app_store a, fl_fullContent fl)) chunk = (buffer', (st', fc'))"
      by (metis prod.exhaust)
    let ?fl' = "fl\<lparr> fl_fullContent := fc', fl_buffer := buffer' \<rparr>"
    have same: "chat_ok (Some ?fl') = chat_ok (Some fl)"
      by (rule ext) (simp add: chat_ok_def split: list.splits)
    from assms Some have "list_all (chat_ok (Some fl)) (chats (app_store a))"
      by (simp add: turn_inv_def)
    then have "list_all (chat_ok (Some fl)) (chats st')"
      using r by (rule read_step_keeps_chats_ok)
    with assms Fragment Some r same show ?thesis
      by (simp add: turn_inv_def)
  qed
next
  case StreamEnds
  show ?thesis
  proof (cases "app_inflight a")
    case None
    with StreamEnds assms show ?thesis by simp
  next
    case (Some fl)
    with assms have ok: "list_all (chat_ok (Some fl)) (chats (app_store a))"
      by (simp add: turn_inv_def)
    have "quiet (ui_store (handleSend_settle (fl_chatId fl) (fl_aiId fl) (fl_fullContent fl) (app_store a)))"
      using quiet_after_terminal_patch [OF ok]
      by (simp add: handleSend_settle_def no_updates_def)
    with StreamEnds Some show ?thesis
      using quiet_chats_ok [of _ None]
      by (simp add: turn_inv_def Let_def) (simp add: handleSend_settle_def)
  qed
next
  case (StreamFails e)
  show ?thesis
  proof (cases "app_inflight a")
    case None
    with StreamFails assms show ?thesis by simp
  next
    case (Some fl)
    with assms have ok: "list_all (chat_ok (Some fl)) (chats (app_store a))"
      by (simp add: turn_inv_def)
    have "quiet (ui_store (handleSend_catch (fl_chatId fl) (fl_aiId fl)
             (JsError (message_or ''Unknown error occurred'' e)) (app_store a)))"
      using quiet_after_terminal_patch [OF ok]
      by (simp add: handleSend_catch_def no_updates_def)
    with StreamFails Some show ?thesis
      using quiet_chats_ok [of _ None]
      by (simp add: turn_inv_def Let_def) (simp add: handleSend_catch_def)
  qed
next
  case (NewChat new_id now)
  with assms show ?thesis by (simp add: turn_inv_def chats_ok_createChat)
next
  case (SelectChat cid)
  with assms show ?thesis by (simp add: turn_inv_def chats_ok_setActiveChat)
next
  case (DeleteChat cid)
  with assms show ?thesis by (simp add: turn_inv_def chats_ok_deleteChat)
qed

lemma reachable_turn_inv: "idle a0 \<Longrightarrow> turn_inv (foldl (step parse) a0 evs)"
  by (induction evs rule: rev_induct) (simp_all add: idle_turn_inv step_keeps_turn_inv)

text \<open>
  The event-wise run of a turn with nothing interleaved is the turn as \<open>handleSend\<close>
  describes it.
\<close>

lemma fragments_step:
  assumes "app_inflight a = Some fl"
      and "read_loop parse (handleSend_callbacks (fl_chatId fl) (fl_aiId fl)) frs
             (fl_buffer fl, (app_store a, fl_fullContent fl)) = (buffer', (st', fc'))"
  shows "foldl (step parse) a (map Fragment frs)
           = a\<lparr> app_store := st',
                app_inflight := Some (fl\<lparr> fl_fullContent := fc', fl_buffer := buffer' \<rparr>) \<rparr>"
  using assms
proof (induction frs arbitrary: buffer' st' fc' rule: rev_induct)
  case Nil
  then show ?case by (simp add: read_loop_def)
next
  case (snoc f frs)
  obtain b1 s1 c1 where r1: "read_loop parse (handleSend_callbacks (fl_chatId fl) (fl_aiId fl)) frs
             (fl_buffer fl, (app_store a, fl_fullContent fl)) = (b1, (s1, c1))"
    by (metis prod.exhaust)
  from snoc.prems(2) r1
  have r2: "read_step parse (handleSend_callbacks (fl_chatId fl) (fl_aiId fl)) (b1, (s1, c1)) f
              = (buffer', (st', fc'))"
    by (simp add: read_loop_def)
  have "foldl (step parse) a (map Fragment frs)
           = a\<lparr> app_store := s1, app_inflight := Some (fl\<lparr> fl_fullContent := c1, fl_buffer := b1 \<rparr>) \<rparr>"
    by (rule snoc.IH [OF snoc.prems(1) r1])
  then show ?case
    using r2 by simp
qed

lemma machine_runs_handleSend:
  assumes "chatInput_handleSend message (app_thinking a) = Some sent"
      and "ui = \<lparr> ui_store = app_store a, isThinking = app_thinking a \<rparr>"
      and "fetch (turn_request sent ui)
             = FetchResolves \<lparr> ok = True, error_detail = x,
                               body = Some \<lparr> fragments = frs, ending = en \<rparr> \<rparr>"
      and "ui' = snd (handleSend parse fetch ids now sent ui)"
  shows "foldl (step parse) a
           (Send message ids now # map Fragment frs
              @ [case en of EndOfStream \<Rightarrow> StreamEnds | ReadFails e \<Rightarrow> StreamFails e])
         = \<lparr> app_store = ui_store ui', app_thinking = isThinking ui', app_inflight = None \<rparr>"
proof -
  obtain chatId aiId history ui1 where
    b: "handleSend_begin ids now sent ui = ((chatId, aiId, history), ui1)"
    by (metis prod.exhaust)
  let ?fl = "\<lparr> fl_chatId = chatId, fl_aiId = aiId, fl_fullContent = [], fl_buffer = [] \<rparr>"
  let ?a1 = "\<lparr> app_store = ui_store ui1, app_thinking = isThinking ui1, app_inflight = Some ?fl \<rparr>"
  have s1: "step parse a (Send message ids now) = ?a1"
    using assms(1) b by (simp add: assms(2))
  obtain st' fc where r: "foldl (replay (handleSend_callbacks chatId aiId)) (ui_store ui1, [])
             (decoded_calls parse (fragments_read (fetch (turn_request sent ui)))) = (st', fc)"
    by (metis prod.exhaust)
  have fr: "fragments_read (fetch (turn_request sent ui)) = frs"
    by (simp add: assms(3) fragments_read_def)
  have "read_loop parse (handleSend_callbacks chatId aiId) frs ([], (ui_store ui1, []))
          = (last (split_nl (concat frs)), (st', fc))"
    using r by (simp add: read_loop_replay fr)
  then have s2: "foldl (step parse) ?a1 (map Fragment frs)
          = ?a1\<lparr> app_store := st',
                  app_inflight := Some (?fl\<lparr> fl_fullContent := fc,
                                            fl_buffer := last (split_nl (concat frs)) \<rparr>) \<rparr>"
    by (intro fragments_step) simp_all
  have sf: "stream_failure (fetch (turn_request sent ui))
              = (case en of EndOfStream \<Rightarrow> None | ReadFails e \<Rightarrow> Some e)"
    by (simp add: assms(3) stream_failure_def)
  have hs: "ui' = (case en of
                     EndOfStream \<Rightarrow> handleSend_settle chatId aiId fc st'
                   | ReadFails e \<Rightarrow> handleSend_catch chatId aiId
                                      (JsError (message_or ''Unknown error occurred'' e)) st')"
    using handleSend_unfolded [where fetch = fetch and parse = parse, OF b r] sf
    by (simp add: assms(4) split: stream_end.splits)
  let ?a2 = "?a1\<lparr> app_store := st',
                  app_inflight := Some (?fl\<lparr> fl_fullContent := fc,
                                            fl_buffer := last (split_nl (concat frs)) \<rparr>) \<rparr>"
  let ?final = "case en of EndOfStream \<Rightarrow> StreamEnds | ReadFails e \<Rightarrow> StreamFails e"
  have "foldl (step parse) a (Send message ids now # map Fragment frs @ [?final])
          = step parse (foldl (step parse) (step parse a (Send message ids now)) (map Fragment frs)) ?final"
    by (simp del: step.simps)
  also have "\<dots> = step parse ?a2 ?final"
    by (simp only: s1 s2)
  also have "\<dots> = \<lparr> app_store = ui_store ui', app_thinking = isThinking ui', app_inflight = None \<rparr>"
    by (cases en) (simp_all add: hs Let_def)
  finally show ?thesis .
qed

section \<open>Title derivation\<close>

text \<open>
  C4 (as the code has it): \<open>addMessage\<close> sets the title of the addressed conversation
  to the first 40 characters of the appended message's content followed by three dots
  exactly when that conversation has no prior message, whatever the role of the
  appended message; a conversation that already has messages keeps its title.
\<close>

theorem addMessage_title:
  "map title (chats (addMessage chatId m now st)) =
     map (\<lambda>c. if chat_id c = chatId \<and> messages c = []
               then take 40 (content m) @ ''...'' else title c) (chats st)"
  by (simp add: addMessage_def slice_to_def)

text \<open>
  The claim as stated fails: a first message of role assistant also replaces the title.
\<close>

theorem addMessage_title_assistant_counterexample:
  "map title (chats (addMessage ''c1''
       \<lparr> msg_id = ''m1'', msg_role = Assistant, content = ''hi'', timestamp = 0,
         citations = None, hasChart = None, chartData = None, isStreaming = None \<rparr> 1
       \<lparr> chats = [\<lparr> chat_id = ''c1'', title = ''New Conversation'', messages = [],
                    datasetId = None, createdAt = 0, updatedAt = 0 \<rparr>],
         activeChat = Some ''c1'', activeDataset = None \<rparr>))
   = [''hi...''] \<and> ''hi...'' \<noteq> ''New Conversation''"
  by (simp add: addMessage_def slice_to_def)

section \<open>Transport decoding\<close>

text \<open>
  C5: the decoder is split-invariant. For every parse function, all callbacks and every
  list of fragments, reading the fragments one after another through the carry-over
  buffer leaves the same buffer and the same caller state as reading their
  concatenation as one fragment; in particular the sequence of calls delivered is the
  same.
\<close>

theorem decoder_split_invariant:
  "read_loop parse cbs frs ([], s) = read_loop parse cbs [concat frs] ([], s)
   \<and> decoded_calls parse frs = decoded_calls parse [concat frs]"
  by (simp add: decoded_calls_def read_loop_concat)

text \<open>
  C10: when the stream ends while the buffer holds a partial line, that text is dropped.
  If the text received is \<open>whole @ partial\<close>, where \<open>whole\<close> is empty or ends in a line
  feed and \<open>partial\<close> has no line feed, then the loop ends with \<open>partial\<close> in the buffer,
  the calls delivered and the state are those of \<open>whole\<close> alone, and the client returns
  without using the buffer; a stream that consists of an unterminated frame delivers
  no call.
\<close>

theorem trailing_partial_line_discarded:
  assumes "nl \<notin> set partial"
      and "whole = [] \<or> last whole = nl"
      and "concat frs = whole @ partial"
  shows "read_loop parse cbs frs ([], s) = (partial, snd (read_loop parse cbs [whole] ([], s)))
       \<and> decoded_calls parse frs = decoded_calls parse [whole]
       \<and> (whole = [] \<longrightarrow> decoded_calls parse frs = [])
       \<and> chat_stream parse
            (FetchResolves \<lparr> ok = True, error_detail = x,
                             body = Some \<lparr> fragments = frs, ending = EndOfStream \<rparr> \<rparr>) cbs s
           = (snd (read_loop parse cbs [whole] ([], s)), None)"
proof -
  have sp: "split_nl (concat frs) = butlast (split_nl whole) @ [partial]"
    using split_nl_whole_partial [OF assms(1,2)] assms(3) by simp
  have b: "decoded_calls parse frs = decoded_calls parse [whole]"
    by (simp add: decoded_calls_lines sp)
  have a: "read_loop parse cbs frs ([], s) = (partial, snd (read_loop parse cbs [whole] ([], s)))"
    by (simp add: read_loop_replay b) (simp add: sp)
  have c: "whole = [] \<Longrightarrow> decoded_calls parse frs = []"
    by (simp add: b) (simp add: decoded_calls_lines)
  show ?thesis
    using a b c by (simp add: chat_stream_def)
qed

text \<open>
  An instance: the content frame ends in a line feed and is delivered, the final
  \<open>done\<close> frame does not and is lost, although the same frame followed by a line feed
  is delivered.
\<close>

theorem trailing_partial_line_discarded_witness:
  \<open>decoded_calls wire_parse
      [''data: {"type":"content","data":"Hi"}\<newline>'', ''data: {"type":"done"}'']
     = [ChunkCall (Some ''Hi'')]
   \<and> decoded_calls wire_parse [''data: {"type":"done"}\<newline>''] = [DoneCall]\<close>
proof -
  let ?whole = \<open>''data: {"type":"content","data":"Hi"}\<newline>''\<close>
  let ?partial = \<open>''data: {"type":"done"}''\<close>
  have h1: "nl \<notin> set ?partial" by (simp add: nl_def)
  have h2: "?whole = [] \<or> last ?whole = nl" by (simp add: nl_def)
  have h3: "concat [?whole, ?partial] = ?whole @ ?partial" by simp
  have "decoded_calls wire_parse [?whole, ?partial] = decoded_calls wire_parse [?whole]"
    using trailing_partial_line_discarded [OF h1 h2 h3, of wire_parse recorder "[]"] by blast
  moreover have "decoded_calls wire_parse [?whole] = [ChunkCall (Some ''Hi'')]"
    by code_simp
  moreover have \<open>decoded_calls wire_parse [''data: {"type":"done"}\<newline>''] = [DoneCall]\<close>
    by code_simp
  ultimately show ?thesis by simp
qed

section \<open>Streaming client\<close>

text \<open>
  C3 (as the code has it): the read loop has no exit at a \<open>done\<close> event. When the
  text received is \<open>pre @ sse_frame d @ post\<close>, with \<open>pre\<close> a sequence of whole lines
  and \<open>d\<close> a payload that parses to type \<open>done\<close>, the completion callback runs on the
  state that \<open>pre\<close> left and the client goes on to read \<open>post\<close> from the state the
  callback left, exactly as it reads \<open>post\<close> at the start of a stream: the calls
  delivered are those of \<open>pre\<close>, the completion call, and those of \<open>post\<close>.
  Reading ends only with the stream.
\<close>

theorem done_does_not_stop_reading:
  assumes "onDone cbs = Some g"
      and "parse d = Some p" and "ptype p = Some ''done''" and "nl \<notin> set d"
      and "pre = [] \<or> last pre = nl"
      and "concat frs = pre @ sse_frame d @ post"
  shows "snd (read_loop parse cbs frs ([], s))
           = snd (read_loop parse cbs [post] ([], fst (g (snd (read_loop parse cbs [pre] ([], s))))))
       \<and> decoded_calls parse frs
           = decoded_calls parse [pre] @ [DoneCall] @ decoded_calls parse [post]"
proof -
  have l: "line_calls parse (''data: '' @ d) = [DoneCall]"
    using assms(2,3) by (simp only: line_calls_frame) simp
  have b: "decoded_calls parse frs
           = decoded_calls parse [pre] @ [DoneCall] @ decoded_calls parse [post]"
    using split_nl_frame [OF assms(4,5), of post] assms(6) l
    by (simp add: decoded_calls_lines)
  have a: "snd (read_loop parse cbs frs ([], s))
           = snd (read_loop parse cbs [post] ([], fst (g (snd (read_loop parse cbs [pre] ([], s))))))"
    using assms(1) by (simp add: read_loop_replay b replay_def)
  show ?thesis using a b by simp
qed

theorem done_does_not_stop_reading_witness:
  \<open>decoded_calls wire_parse
      [''data: {"type":"content","data":"a"}\<newline>data: {"type":"done"}\<newline>data: {"type":"content","data":"b"}\<newline>'']
     = [ChunkCall (Some ''a''), DoneCall, ChunkCall (Some ''b'')]\<close>
proof -
  let ?pre = \<open>''data: {"type":"content","data":"a"}\<newline>''\<close>
  let ?d = \<open>''{"type":"done"}''\<close>
  let ?post = \<open>''data: {"type":"content","data":"b"}\<newline>''\<close>
  have h1: "onDone recorder = Some (\<lambda>lg. (lg @ [DoneCall], None))" by (simp add: recorder_def)
  have h2: "wire_parse ?d = Some \<lparr> ptype = Some ''done'', pdata = None \<rparr>" by (simp add: wire_parse_def)
  have h3: "ptype \<lparr> ptype = Some ''done'', pdata = None \<rparr> = Some ''done''" by simp
  have h4: "nl \<notin> set ?d" by (simp add: nl_def)
  have h5: "?pre = [] \<or> last ?pre = nl" by (simp add: nl_def)
  have h6: "concat [?pre @ sse_frame ?d @ ?post] = ?pre @ sse_frame ?d @ ?post" by simp
  have "decoded_calls wire_parse [?pre @ sse_frame ?d @ ?post]
          = decoded_calls wire_parse [?pre] @ [DoneCall] @ decoded_calls wire_parse [?post]"
    using done_does_not_stop_reading
            [where cbs = recorder and parse = wire_parse and d = ?d and pre = ?pre and post = ?post
               and frs = "[?pre @ sse_frame ?d @ ?post]" and s = "[]", OF h1 h2 h3 h4 h5 h6]
    by blast
  moreover have "decoded_calls wire_parse [?pre] = [ChunkCall (Some ''a'')]" by code_simp
  moreover have "decoded_calls wire_parse [?post] = [ChunkCall (Some ''b'')]" by code_simp
  ultimately show ?thesis by (simp add: sse_frame_def nl_def)
qed

text \<open>
  The claim as stated fails: a chunk call is made for a frame that follows a \<open>done\<close>
  frame, and for one that follows an \<open>error\<close> frame, also with the callbacks of
  \<open>handleSend\<close>, whose error callback raises.
\<close>

theorem terminal_event_stops_reading_counterexample:
  \<open>decoded_calls wire_parse
      [''data: {"type":"done"}\<newline>data: {"type":"content","data":"late"}\<newline>'']
     = [DoneCall, ChunkCall (Some ''late'')]
   \<and> snd (snd (read_loop wire_parse (logged (handleSend_callbacks ''c1'' ''a1''))
        [''data: {"type":"error","data":"boom"}\<newline>data: {"type":"content","data":"late"}\<newline>'']
        ([], ((initial_store, []), []))))
     = [ErrorCall (Some ''boom''), ChunkCall (Some ''late'')]\<close>
  by (simp add: decoded_calls_def read_loop_def read_step_def process_line_def recorder_def
        logged_def handleSend_callbacks_def wire_parse_def unwrap_def trim_def is_ws_def nl_def
        startsWith_def slice_from_def plain_char_def Let_def)

text \<open>
  C2 (as the code has it): let an error callback \<open>f\<close> be supplied. The calls made while
  frames are dispatched never raise into the client, whatever the callbacks raise. If no
  exception is raised while the stream is set up and read, the client returns
  normally. If an exception is raised there, the \<^verbatim>\<open>catch\<close> block calls the error
  callback once, after every other call, with the exception's message, and the client
  returns normally exactly when that call does: an exception raised by that call of
  the error callback leaves the client.
\<close>

theorem sendChatMessage_error_delivery:
  assumes "onError cbs = Some f"
  shows "sendChatMessage parse fetch m h d (logged cbs) (s, []) =
     (let req = \<lparr> req_message = m, req_history = h, req_datasetId = d \<rparr>;
          calls = filter (supplied cbs) (decoded_calls parse (fragments_read (fetch req)));
          s1 = foldl (replay cbs) s (decoded_calls parse (fragments_read (fetch req)))
      in case stream_failure (fetch req) of
           None \<Rightarrow> (req, (s1, calls), None)
         | Some e \<Rightarrow>
             (let msg = message_or ''Unknown error occurred'' e
              in (req, (fst (f (Some msg) s1), calls @ [ErrorCall (Some msg)]), snd (f (Some msg) s1))))"
  by (simp add: sendChatMessage_def chat_stream_logged onError_logged [OF assms] Let_def
           split: option.splits prod.splits)

text \<open>
  Two instances: a read that fails after two chunks, with the callbacks of
  \<open>handleSend\<close>, whose error callback raises; and a rejected request, with an error
  callback that returns.
\<close>

theorem sendChatMessage_error_delivery_witness:
  "snd (fst (snd (sendChatMessage wire_parse (demo_fetch hello_cut_stream (ReadFails (JsError ''boom'')))
       ''hi'' [] None (logged (handleSend_callbacks ''c1'' ''a1'')) ((initial_store, []), []))))
     = [ChunkCall (Some ''Hel''), ChunkCall (Some ''lo''), ErrorCall (Some ''boom'')]
   \<and> snd (snd (sendChatMessage wire_parse (demo_fetch hello_cut_stream (ReadFails (JsError ''boom'')))
       ''hi'' [] None (logged (handleSend_callbacks ''c1'' ''a1'')) ((initial_store, []), [])))
     = Some (JsError ''boom'')
   \<and> sendChatMessage wire_parse rejecting_fetch ''hi'' [] None
       (logged \<lparr> onChunk = None, onDone = None, onError = Some (\<lambda>d n. (Suc n, None)) \<rparr>) (0::nat, [])
     = (\<lparr> req_message = ''hi'', req_history = [], req_datasetId = None \<rparr>,
        (1, [ErrorCall (Some ''Failed to fetch'')]), None)"
proof -
  let ?req = "\<lparr> req_message = ''hi'', req_history = [], req_datasetId = None \<rparr>"
  let ?fetch = "demo_fetch hello_cut_stream (ReadFails (JsError ''boom''))"
  have h1: "onError (handleSend_callbacks ''c1'' ''a1'')
              = Some (\<lambda>err sf. (sf, Some (JsError (error_message_of err))))"
    by (simp add: handleSend_callbacks_def)
  have c: "decoded_calls wire_parse (fragments_read (?fetch ?req))
             = [ChunkCall (Some ''Hel''), ChunkCall (Some ''lo'')]"
    by code_simp
  have f: "stream_failure (?fetch ?req) = Some (JsError ''boom'')"
    by code_simp
  have s: "list_all (supplied (handleSend_callbacks ''c1'' ''a1''))
             [ChunkCall (Some ''Hel''), ChunkCall (Some ''lo'')]"
    by (simp add: supplied_def handleSend_callbacks_def)
  have h2: "onError \<lparr> onChunk = None, onDone = None, onError = Some (\<lambda>d n. (Suc n, None)) \<rparr>
             = Some (\<lambda>d (n::nat). (Suc n, None))"
    by simp
  have a: "snd (fst (snd (sendChatMessage wire_parse ?fetch ''hi'' [] None
               (logged (handleSend_callbacks ''c1'' ''a1'')) ((initial_store, []), []))))
            = [ChunkCall (Some ''Hel''), ChunkCall (Some ''lo''), ErrorCall (Some ''boom'')]
        \<and> snd (snd (sendChatMessage wire_parse ?fetch ''hi'' [] None
               (logged (handleSend_callbacks ''c1'' ''a1'')) ((initial_store, []), [])))
            = Some (JsError ''boom'')"
    using sendChatMessage_error_delivery
            [where fetch = ?fetch and parse = wire_parse and s = "(initial_store, [])", OF h1] s
    by (simp add: c f Let_def message_or_def error_message_of_def)
  have b: "sendChatMessage wire_parse rejecting_fetch ''hi'' [] None
       (logged \<lparr> onChunk = None, onDone = None, onError = Some (\<lambda>d n. (Suc n, None)) \<rparr>) (0::nat, [])
     = (?req, (1, [ErrorCall (Some ''Failed to fetch'')]), None)"
    using sendChatMessage_error_delivery [where fetch = rejecting_fetch and parse = wire_parse and s = 0, OF h2]
    by (simp add: stream_failure_def fragments_read_def decoded_calls_def read_loop_def
          message_or_def Let_def rejecting_fetch_def)
  from a b show ?thesis by simp
qed

text \<open>
  The claim as stated fails: with the error callback of \<open>handleSend\<close>, which raises, a
  rejected request makes the client raise.
\<close>

theorem sendChatMessage_never_raises_counterexample:
  "onError (handleSend_callbacks ''c1'' ''a1'') \<noteq> None
   \<and> snd (snd (sendChatMessage wire_parse rejecting_fetch
        ''hi'' [] None (handleSend_callbacks ''c1'' ''a1'') (initial_store, [])))
     = Some (JsError ''Failed to fetch'')"
  by (simp add: sendChatMessage_def chat_stream_def handleSend_callbacks_def message_or_def
        error_message_of_def rejecting_fetch_def)

section \<open>Session orchestration\<close>

text \<open>
  C1: ordering. Let the turn have begun on a ready store, and let the calls the client
  decodes from the response be chunk calls with payloads \<open>c1, \<dots>, cn\<close> in this order,
  followed by a completion call. When the client has returned, the accumulator and the
  content of the assistant message both equal \<open>c1 @ \<dots> @ cn\<close>: every payload once, in
  the order of delivery.
\<close>

theorem chunks_folded_in_order:
  assumes "turn_ready ids (ui_store ui)"
      and "handleSend_begin ids now text ui = ((chatId, aiId, history), ui1)"
      and "decoded_calls parse
             (fragments_read (fetch \<lparr> req_message = text, req_history = history, req_datasetId = dsId \<rparr>))
           = map (\<lambda>c. ChunkCall (Some c)) cs @ [DoneCall]"
      and "sendChatMessage parse fetch text history dsId (handleSend_callbacks chatId aiId)
             (ui_store ui1, []) = (req, (st', fullContent), exn)"
  shows "fullContent = concat cs \<and> map content (messages_with chatId aiId st') = [concat cs]"
proof -
  have run: "foldl (replay (handleSend_callbacks chatId aiId)) (ui_store ui1, [])
               (map (\<lambda>c. ChunkCall (Some c)) cs @ [DoneCall]) = (st', fullContent)"
    using assms(3,4) by (simp add: sendChatMessage_handleSend_callbacks Let_def)
  have ph: "messages_with chatId aiId (ui_store ui1) = [placeholder ids now]"
    by (rule handleSend_begin_placeholder [OF assms(1,2)])
  have fc: "fullContent = concat cs"
    using replay_handleSend_callbacks [OF run] by (simp add: accumulated_chunks)
  let ?calls = "map (\<lambda>c. ChunkCall (Some c)) cs @ [DoneCall]"
  have mw: "messages_with chatId aiId st'
         = (if list_ex is_chunk_call ?calls
            then map (\<lambda>m. m\<lparr> content := fullContent \<rparr>) (messages_with chatId aiId (ui_store ui1))
            else messages_with chatId aiId (ui_store ui1))"
    using replay_handleSend_callbacks [OF run] by blast
  have "map content (messages_with chatId aiId st') = [concat cs]"
  proof (cases "cs = []")
    case True
    then have "\<not> list_ex is_chunk_call ?calls" by (simp only: list_ex_chunks) simp
    with mw have "messages_with chatId aiId st' = [placeholder ids now]" by (simp only: ph if_False)
    with True show ?thesis by (simp add: placeholder_def)
  next
    case False
    then have "list_ex is_chunk_call ?calls" by (simp only: list_ex_chunks) simp
    with mw have "messages_with chatId aiId st' = map (\<lambda>m. m\<lparr> content := fullContent \<rparr>) [placeholder ids now]"
      by (simp only: ph if_True)
    with fc show ?thesis by simp
  qed
  with fc show ?thesis by simp
qed

theorem chunks_folded_in_order_witness:
  "map content (messages_with ''c1'' ''a1''
     (fst (fst (snd (sendChatMessage wire_parse (demo_fetch hello_stream EndOfStream) ''hi'' [] None
        (handleSend_callbacks ''c1'' ''a1'')
        (ui_store (snd (handleSend_begin demo_ids 7 ''hi'' demo_ui)), []))))))
   = [''Hello'']"
proof -
  let ?run = "sendChatMessage wire_parse (demo_fetch hello_stream EndOfStream) ''hi'' [] None
        (handleSend_callbacks ''c1'' ''a1'')
        (ui_store (snd (handleSend_begin demo_ids 7 ''hi'' demo_ui)), [])"
  have h3: "decoded_calls wire_parse
             (fragments_read (demo_fetch hello_stream EndOfStream
                \<lparr> req_message = ''hi'', req_history = [], req_datasetId = None \<rparr>))
           = map (\<lambda>c. ChunkCall (Some c)) [''Hel'', ''lo''] @ [DoneCall]"
    by code_simp
  have h4: "?run = (fst ?run, (fst (fst (snd ?run)), snd (fst (snd ?run))), snd (snd ?run))"
    by simp
  show ?thesis
    using chunks_folded_in_order [OF demo_ready demo_begin h3 h4] by simp
qed

text \<open>
  C9: history filtering. The \<open>history\<close> field of the request of a turn consists of the
  role and content of exactly those messages of the rendered conversation whose
  content has a character that is not white space, in their order; a message with empty
  or blank content is never sent.
\<close>

theorem history_filtered:
  "req_history (fst (handleSend parse fetch ids now text ui))
     = map (\<lambda>m. (msg_role m, content m))
         (filter (\<lambda>m. \<not> list_all is_ws (content m)) (current_messages (ui_store ui)))"
proof -
  have eq: "filter (\<lambda>m. content m \<noteq> [] \<and> trim (content m) \<noteq> []) ms
              = filter (\<lambda>m. \<not> list_all is_ws (content m)) ms" for ms :: "message list"
    by (rule filter_cong) (auto simp: trim_empty_iff)
  show ?thesis
    by (simp add: handleSend_request turn_request_def build_history_def eq)
qed

text \<open>
  An instance: of four earlier messages, one empty and one blank, the two others are
  sent.
\<close>

theorem history_filtered_witness:
  "req_history (fst (handleSend wire_parse (demo_fetch hello_stream EndOfStream) demo_ids 7
      ''next'' demo_history_ui))
   = [(User, ''hello''), (Assistant, ''ok'')]"
proof -
  have "map (\<lambda>m. (msg_role m, content m))
         (filter (\<lambda>m. \<not> list_all is_ws (content m)) (current_messages (ui_store demo_history_ui)))
        = [(User, ''hello''), (Assistant, ''ok'')]"
    by code_simp
  then show ?thesis
    using history_filtered [of wire_parse "demo_fetch hello_stream EndOfStream" demo_ids 7
            "''next''" demo_history_ui]
    by simp
qed

text \<open>
  C6 (as the code has it): let the turn have begun on a ready store and let the stream
  be set up and read to its end without an exception, and let \<open>acc\<close> be the text the
  chunk calls accumulated. When \<open>handleSend\<close> has finished, the flag \<open>isThinking\<close> is
  down and the assistant message is the placeholder with \<open>isStreaming\<close> false and with
  content the fallback notice if \<open>acc\<close> is empty or all white space, and \<open>acc\<close>
  itself if \<open>acc\<close> has a character that is not white space.
\<close>

theorem settle_after_successful_stream:
  assumes "turn_ready ids (ui_store ui)"
      and "handleSend_begin ids now text ui = ((chatId, aiId, history), ui1)"
      and "stream_failure (fetch (turn_request text ui)) = None"
      and "acc = accumulated (decoded_calls parse (fragments_read (fetch (turn_request text ui))))"
  shows "\<not> isThinking (snd (handleSend parse fetch ids now text ui))
       \<and> messages_with chatId aiId (ui_store (snd (handleSend parse fetch ids now text ui)))
           = [(placeholder ids now)\<lparr> content := (if list_all is_ws acc then fallback_notice else acc),
                                      isStreaming := Some False \<rparr>]"
proof -
  obtain st' fc where r: "foldl (replay (handleSend_callbacks chatId aiId)) (ui_store ui1, [])
             (decoded_calls parse (fragments_read (fetch (turn_request text ui)))) = (st', fc)"
    by (metis prod.exhaust)
  have bt: "fc = acc" "messages_with chatId aiId st' = [(placeholder ids now)\<lparr> content := acc \<rparr>]"
    using before_terminal [OF assms(1,2) r] assms(4) by simp_all
  have hs: "snd (handleSend parse fetch ids now text ui) = handleSend_settle chatId aiId acc st'"
    using handleSend_unfolded [where fetch = fetch and parse = parse, OF assms(2) r] assms(3) bt(1) by simp
  show ?thesis
  proof (cases "list_all is_ws acc")
    case True
    then have "acc = [] \<or> trim acc = []" by (simp add: blank_iff)
    then have "ui_store (handleSend_settle chatId aiId acc st')
        = updateMessage chatId aiId
            (no_updates\<lparr> upd_content := Some fallback_notice, upd_isStreaming := Some (Some False) \<rparr>) st'"
      by (simp add: handleSend_settle_def)
    then have "messages_with chatId aiId (ui_store (handleSend_settle chatId aiId acc st'))
        = map (\<lambda>m. m\<lparr> content := fallback_notice, isStreaming := Some False \<rparr>)
            (messages_with chatId aiId st')"
      by (simp add: messages_with_updateMessage no_updates_def apply_updates_def)
    with True bt(2) hs show ?thesis
      by (simp add: handleSend_settle_def)
  next
    case False
    then have "\<not> (acc = [] \<or> trim acc = [])" by (simp add: blank_iff)
    then have "ui_store (handleSend_settle chatId aiId acc st')
        = updateMessage chatId aiId (no_updates\<lparr> upd_isStreaming := Some (Some False) \<rparr>) st'"
      by (simp add: handleSend_settle_def)
    then have "messages_with chatId aiId (ui_store (handleSend_settle chatId aiId acc st'))
        = map (\<lambda>m. m\<lparr> isStreaming := Some False \<rparr>) (messages_with chatId aiId st')"
      by (simp add: messages_with_updateMessage no_updates_def apply_updates_def)
    with False bt(2) hs show ?thesis
      by (simp add: handleSend_settle_def)
  qed
qed

theorem settle_after_successful_stream_witness:
  "messages_with ''c1'' ''a1''
     (ui_store (snd (handleSend wire_parse (demo_fetch hello_stream EndOfStream) demo_ids 7 ''hi'' demo_ui)))
   = [(placeholder demo_ids 7)\<lparr> content := ''Hello'', isStreaming := Some False \<rparr>]
   \<and> messages_with ''c1'' ''a1''
     (ui_store (snd (handleSend wire_parse (demo_fetch [] EndOfStream) demo_ids 7 ''hi'' demo_ui)))
   = [(placeholder demo_ids 7)\<lparr> content := fallback_notice, isStreaming := Some False \<rparr>]"
proof -
  have f1: "stream_failure (demo_fetch hello_stream EndOfStream (turn_request ''hi'' demo_ui)) = None"
    by code_simp
  have a1: "''Hello'' = accumulated (decoded_calls wire_parse
              (fragments_read (demo_fetch hello_stream EndOfStream (turn_request ''hi'' demo_ui))))"
    by code_simp
  have f2: "stream_failure (demo_fetch [] EndOfStream (turn_request ''hi'' demo_ui)) = None"
    by code_simp
  have a2: "[] = accumulated (decoded_calls wire_parse
              (fragments_read (demo_fetch [] EndOfStream (turn_request ''hi'' demo_ui))))"
    by code_simp
  show ?thesis
    using settle_after_successful_stream
            [where fetch = "demo_fetch hello_stream EndOfStream", OF demo_ready demo_begin f1 a1]
          settle_after_successful_stream
            [where fetch = "demo_fetch [] EndOfStream", OF demo_ready demo_begin f2 a2]
    by (simp add: is_ws_def)
qed

text \<open>
  The claim as stated fails: one chunk that is not empty, a single space, is replaced
  by the fallback notice.
\<close>

theorem nonempty_chunk_preserved_counterexample:
  "decoded_calls wire_parse blank_stream = [ChunkCall (Some '' ''), DoneCall]
   \<and> map content (messages_with ''c1'' ''a1''
        (ui_store (snd (handleSend wire_parse (demo_fetch blank_stream EndOfStream) demo_ids 7
           ''hi'' demo_ui))))
     = [fallback_notice]
   \<and> fallback_notice \<noteq> '' ''"
  by code_simp

text \<open>
  C7 (as the code has it): let the turn have begun on a ready store and let an
  exception \<open>e\<close> be raised while the stream is set up or read (a rejected request, an
  error status, a missing body, a failing read after any number of frames). When
  \<open>handleSend\<close> has finished, the flag \<open>isThinking\<close> is down and the assistant message
  is the placeholder with \<open>isStreaming\<close> false and content \<open>Error: \<close> followed by the
  message of \<open>e\<close>; what had accumulated is gone.
\<close>

theorem stream_failure_overwrites_content:
  assumes "turn_ready ids (ui_store ui)"
      and "handleSend_begin ids now text ui = ((chatId, aiId, history), ui1)"
      and "stream_failure (fetch (turn_request text ui)) = Some e"
  shows "\<not> isThinking (snd (handleSend parse fetch ids now text ui))
       \<and> messages_with chatId aiId (ui_store (snd (handleSend parse fetch ids now text ui)))
           = [(placeholder ids now)\<lparr> content := ''Error: '' @ message_or ''Unknown error occurred'' e,
                                      isStreaming := Some False \<rparr>]"
proof -
  obtain st' fc where r: "foldl (replay (handleSend_callbacks chatId aiId)) (ui_store ui1, [])
             (decoded_calls parse (fragments_read (fetch (turn_request text ui)))) = (st', fc)"
    by (metis prod.exhaust)
  have bt: "messages_with chatId aiId st' = [(placeholder ids now)\<lparr> content := fc \<rparr>]"
    using before_terminal [OF assms(1,2) r] by simp
  let ?msg = "message_or ''Unknown error occurred'' e"
  have hs: "snd (handleSend parse fetch ids now text ui) = handleSend_catch chatId aiId (JsError ?msg) st'"
    using handleSend_unfolded [where fetch = fetch and parse = parse, OF assms(2) r] assms(3) by simp
  have "messages_with chatId aiId (ui_store (handleSend_catch chatId aiId (JsError ?msg) st'))
        = map (\<lambda>m. m\<lparr> content := ''Error: '' @ ?msg, isStreaming := Some False \<rparr>)
            (messages_with chatId aiId st')"
    by (simp add: handleSend_catch_def messages_with_updateMessage no_updates_def apply_updates_def
          message_or_def)
  with bt hs show ?thesis
    by (simp add: handleSend_catch_def)
qed

theorem stream_failure_overwrites_content_witness:
  "messages_with ''c1'' ''a1''
     (ui_store (snd (handleSend wire_parse (demo_fetch hello_cut_stream (ReadFails (JsError ''boom'')))
        demo_ids 7 ''hi'' demo_ui)))
   = [(placeholder demo_ids 7)\<lparr> content := ''Error: boom'', isStreaming := Some False \<rparr>]"
proof -
  have f: "stream_failure (demo_fetch hello_cut_stream (ReadFails (JsError ''boom''))
             (turn_request ''hi'' demo_ui)) = Some (JsError ''boom'')"
    by code_simp
  show ?thesis
    using stream_failure_overwrites_content
            [where fetch = "demo_fetch hello_cut_stream (ReadFails (JsError ''boom''))"
               and parse = wire_parse, OF demo_ready demo_begin f]
    by (simp add: message_or_def)
qed

text \<open>
  The claim as stated fails twice. A decoded \<open>error\<close> event after two chunks leaves
  the content \<open>Hello\<close>: the exception of the error callback is dropped by the inner
  \<^verbatim>\<open>catch\<close> of the client and the turn settles as a success. A failing read gives the
  content \<open>Error: boom\<close>, which is not the error message \<open>boom\<close> itself.
\<close>

theorem error_overwrite_counterexample:
  "decoded_calls wire_parse hello_error_stream
     = [ChunkCall (Some ''Hel''), ChunkCall (Some ''lo''), ErrorCall (Some ''boom'')]
   \<and> map content (messages_with ''c1'' ''a1''
        (ui_store (snd (handleSend wire_parse (demo_fetch hello_error_stream EndOfStream) demo_ids 7
           ''hi'' demo_ui))))
     = [''Hello'']
   \<and> map isStreaming (messages_with ''c1'' ''a1''
        (ui_store (snd (handleSend wire_parse (demo_fetch hello_error_stream EndOfStream) demo_ids 7
           ''hi'' demo_ui))))
     = [Some False]
   \<and> map content (messages_with ''c1'' ''a1''
        (ui_store (snd (handleSend wire_parse
           (demo_fetch hello_cut_stream (ReadFails (JsError ''boom''))) demo_ids 7 ''hi'' demo_ui))))
     = [''Error: boom'']
   \<and> ''Error: boom'' \<noteq> ''boom''"
  by code_simp

section \<open>The single in-flight turn\<close>

text \<open>
  C8: single in-flight turn. From an idle application, after any sequence of events
  (guarded sends, fragments, stream end or failure, and conversation actions), every
  conversation has at most one streaming message; a streaming message is the last
  message of its conversation, has role assistant, and is the placeholder of the turn
  in flight, which belongs to that conversation.
\<close>

theorem single_streaming_message:
  assumes "idle a0" and "a = foldl (step parse) a0 evs"
  shows "\<forall>c \<in> set (chats (app_store a)).
           length (filter streaming (messages c)) \<le> 1
           \<and> (\<forall>i < length (messages c). streaming (messages c ! i) \<longrightarrow>
                 Suc i = length (messages c) \<and> msg_role (messages c ! i) = Assistant
                 \<and> (\<exists>fl. app_inflight a = Some fl \<and> fl_chatId fl = chat_id c
                         \<and> fl_aiId fl = msg_id (messages c ! i)))"
proof
  fix c assume c: "c \<in> set (chats (app_store a))"
  have "turn_inv a" using assms by (simp add: reachable_turn_inv)
  with c have "chat_ok (app_inflight a) c" by (simp add: turn_inv_def list_all_iff)
  then show "length (filter streaming (messages c)) \<le> 1
           \<and> (\<forall>i < length (messages c). streaming (messages c ! i) \<longrightarrow>
                 Suc i = length (messages c) \<and> msg_role (messages c ! i) = Assistant
                 \<and> (\<exists>fl. app_inflight a = Some fl \<and> fl_chatId fl = chat_id c
                         \<and> fl_aiId fl = msg_id (messages c ! i)))"
    by (rule chat_ok_property)
qed

theorem single_streaming_message_witness:
  "map (\<lambda>c. (chat_id c, map (\<lambda>m. (msg_id m, content m, isStreaming m)) (messages c)))
       (chats (app_store (foldl (step wire_parse) demo_app demo_events)))
     = [(''c3'', []), (''c1'', [(''u1'', ''hi'', None), (''a1'', ''Hello'', Some True)])]
   \<and> list_all (\<lambda>c. length (filter streaming (messages c)) \<le> 1)
        (chats (app_store (foldl (step wire_parse) demo_app demo_events)))"
proof -
  have h: "idle demo_app" by code_simp
  have "map (\<lambda>c. (chat_id c, map (\<lambda>m. (msg_id m, content m, isStreaming m)) (messages c)))
       (chats (app_store (foldl (step wire_parse) demo_app demo_events)))
     = [(''c3'', []), (''c1'', [(''u1'', ''hi'', None), (''a1'', ''Hello'', Some True)])]"
    by code_simp
  then show ?thesis
    using single_streaming_message [OF h refl, of wire_parse demo_events]
    by (simp add: list_all_iff)
qed

end
